theory Spec2Isabelle
  imports Complex_Main
begin

section \<open>Data model of CalcWatercourseLength.py\<close>

text \<open>
  The program works on geopandas frames.  A frame is a coordinate reference system name
  and an ordered list of rows; of a row only the two columns the program reads are kept:
  the identifier column selected by \<^verbatim>\<open>fid_col\<close> and the \<^verbatim>\<open>geometry\<close> column, a
  polyline given by its vertex list.  Coordinates are Python floats, that is doubles; how
  they and their arithmetic are modelled is said in the next section.  The row order is
  kept (it fixes the order of \<^verbatim>\<open>potential_fids\<close>), and nothing forbids two rows with the
  same identifier.
\<close>

type_synonym point = "real \<times> real"

record 'f feature =
  fid :: 'f
  geometry :: "point list"

record 'f gdf =
  crs :: string
  rows :: "'f feature list"

text \<open>The blockage frame holds point geometries.\<close>

record points_gdf =
  pcrs :: string
  pts :: "point list"

text \<open>The two exceptions the analysed code can raise.\<close>

datatype error = IndexError | ValueError

section \<open>The geometry library and the arithmetic\<close>

text \<open>
  Coordinates, distances and the tolerance are double-precision numbers.  A finite double
  is modelled by the real number it denotes, so comparing two doubles (\<^verbatim>\<open><=\<close>,
  \<^verbatim>\<open>min\<close>, \<^verbatim>\<open>index\<close>) is comparing two reals.  The arithmetic on doubles rounds, and
  the rounded operations the program uses are parameters of the model:
  \<^item> \<open>fsub P a b\<close> and \<open>fadd P a b\<close>: the doubles \<^verbatim>\<open>a - b\<close> and \<^verbatim>\<open>a + b\<close>;
  \<^item> \<open>fpow2 P a\<close>: the double \<^verbatim>\<open>a ** 2\<close>;
  \<^item> \<open>fsqrt P a\<close>: the double \<^verbatim>\<open>math.sqrt(a)\<close>.

  Infinities, NaN and the overflow error of \<^verbatim>\<open>**\<close> are outside the model.

  Three operations belong to shapely, geopandas and pyproj and have no code in the
  repository.  They are parameters of the model as well:
  \<^item> \<open>intersects P g b\<close>: does the polyline with vertices \<open>g\<close> intersect the polygon with
    shell \<open>b\<close> (\<^verbatim>\<open>network.intersects(buffer)\<close>);
  \<^item> \<open>within_buffer P p gs\<close>: does point \<open>p\<close> lie within the union of the one-unit buffers
    of the polylines \<open>gs\<close> (\<^verbatim>\<open>blockage.within(next_feat.buffer(1).unary_union)\<close>);
  \<^item> \<open>transform P c p\<close>: point \<open>p\<close>, given in reference system \<open>c\<close>, expressed in
    \<^verbatim>\<open>EPSG:27700\<close> (\<^verbatim>\<open>to_crs\<close>).
\<close>

record provider =
  fsub :: "real \<Rightarrow> real \<Rightarrow> real"
  fadd :: "real \<Rightarrow> real \<Rightarrow> real"
  fpow2 :: "real \<Rightarrow> real"
  fsqrt :: "real \<Rightarrow> real"
  intersects :: "point list \<Rightarrow> point list \<Rightarrow> bool"
  within_buffer :: "point \<Rightarrow> point list list \<Rightarrow> bool"
  transform :: "string \<Rightarrow> point \<Rightarrow> point"

definition to_crs :: "provider \<Rightarrow> 'f gdf \<Rightarrow> 'f gdf" where
  "to_crs P network =
     \<lparr>crs = ''EPSG:27700'',
      rows = map (\<lambda>r. r\<lparr>geometry := map (transform P (crs network)) (geometry r)\<rparr>) (rows network)\<rparr>"

definition points_to_crs :: "provider \<Rightarrow> points_gdf \<Rightarrow> points_gdf" where
  "points_to_crs P blockage =
     \<lparr>pcrs = ''EPSG:27700'', pts = map (transform P (pcrs blockage)) (pts blockage)\<rparr>"

text \<open>
  \<^verbatim>\<open>math.sqrt((a[0] - b[0]) ** 2 + (a[1] - b[1]) ** 2)\<close>, the distance the source writes
  out on lines 67 and 68, 129 and 130, and 143 and 144, with every operation the rounded
  one.
\<close>

definition euclid :: "provider \<Rightarrow> point \<Rightarrow> point \<Rightarrow> real" where
  "euclid P a b =
     fsqrt P (fadd P (fpow2 P (fsub P (fst a) (fst b))) (fpow2 P (fsub P (snd a) (snd b))))"

text \<open>
  Modelled from the spec: \<^verbatim>\<open>geometry.length\<close>, the polyline length of the geometry
  library, which is not code of the repository.  It is the sum of the distances between
  consecutive vertices, and a polyline of fewer than two vertices has length 0.
\<close>

fun line_length :: "provider \<Rightarrow> point list \<Rightarrow> real" where
  "line_length P (p # q # ps) = fadd P (euclid P p q) (line_length P (q # ps))"
| "line_length P ps = 0"

text \<open>
  The constructor \<^verbatim>\<open>LineString(coords)\<close> of shapely accepts no coordinate tuple (the empty
  line string) or at least two; on exactly one tuple it raises.
\<close>

definition LineString :: "point list \<Rightarrow> error + point list" where
  "LineString cs = (if length cs = 1 then Inl ValueError else Inr cs)"

section \<open>Python list operations\<close>

text \<open>\<^verbatim>\<open>xs[i]\<close>: a negative index counts from the end, an index out of range raises.\<close>

definition subscript :: "'a list \<Rightarrow> int \<Rightarrow> error + 'a" where
  "subscript xs i =
     (if 0 \<le> i \<and> i < int (length xs) then Inr (xs ! nat i)
      else if i < 0 \<and> - int (length xs) \<le> i then Inr (xs ! nat (int (length xs) + i))
      else Inl IndexError)"

text \<open>\<^verbatim>\<open>xs.index(v)\<close>: the first position holding \<open>v\<close>; raises when there is none.\<close>

fun index :: "'a list \<Rightarrow> 'a \<Rightarrow> error + nat" where
  "index [] v = Inl ValueError"
| "index (x # xs) v =
     (if x = v then Inr 0
      else case index xs v of Inl e \<Rightarrow> Inl e | Inr i \<Rightarrow> Inr (Suc i))"

text \<open>\<^verbatim>\<open>min(xs)\<close>: raises on the empty list.\<close>

definition py_min :: "real list \<Rightarrow> error + real" where
  "py_min xs = (case xs of [] \<Rightarrow> Inl ValueError | x # ys \<Rightarrow> Inr (fold min ys x))"

section \<open>Frame operations\<close>

text \<open>\<^verbatim>\<open>network[network[fid_col] == f]\<close>: the rows carrying identifier \<open>f\<close>.\<close>

definition select_fid :: "'f feature list \<Rightarrow> 'f \<Rightarrow> 'f feature list" where
  "select_fid network f = filter (\<lambda>r. fid r = f) network"

text \<open>
  \<^verbatim>\<open>list(zip(feat.geometry.iloc[0].coords.xy[0], feat.geometry.iloc[0].coords.xy[1]))\<close>:
  the vertex list of the first selected row; \<^verbatim>\<open>iloc[0]\<close> raises on an empty selection.
\<close>

definition first_coords :: "'f feature list \<Rightarrow> error + point list" where
  "first_coords feat = (case feat of [] \<Rightarrow> Inl IndexError | r # rs \<Rightarrow> Inr (geometry r))"

text \<open>The square \<^verbatim>\<open>Polygon\<close> of half-width \<open>tolerance\<close> around \<open>cur_coord\<close>.\<close>

definition buffer :: "provider \<Rightarrow> point \<Rightarrow> real \<Rightarrow> point list" where
  "buffer P cur_coord tolerance =
     [(fsub P (fst cur_coord) tolerance, fsub P (snd cur_coord) tolerance),
      (fsub P (fst cur_coord) tolerance, fadd P (snd cur_coord) tolerance),
      (fadd P (fst cur_coord) tolerance, fadd P (snd cur_coord) tolerance),
      (fadd P (fst cur_coord) tolerance, fsub P (snd cur_coord) tolerance)]"

text \<open>\<^verbatim>\<open>list(network[network.intersects(buffer)][fid_col])\<close>.\<close>

definition potential_fids :: "provider \<Rightarrow> 'f feature list \<Rightarrow> point list \<Rightarrow> 'f list" where
  "potential_fids P network b = map fid (filter (\<lambda>r. intersects P (geometry r) b) network)"

text \<open>\<^verbatim>\<open>network.loc[network[fid_col] == f, 'geometry'] = line\<close>.\<close>

definition set_geometry :: "'f feature list \<Rightarrow> 'f \<Rightarrow> point list \<Rightarrow> 'f feature list" where
  "set_geometry network f line =
     map (\<lambda>r. if fid r = f then r\<lparr>geometry := line\<rparr> else r) network"

text \<open>
  \<^verbatim>\<open>network[network[fid_col].isin(found_vertex)]\<close>, and \<^verbatim>\<open>sum(selected.geometry.length)\<close>,
  which adds the lengths one after the other, in row order, to the integer 0.
\<close>

definition isin :: "'f feature list \<Rightarrow> 'f list \<Rightarrow> 'f feature list" where
  "isin network found_vertex = filter (\<lambda>r. fid r \<in> set found_vertex) network"

definition total_length :: "provider \<Rightarrow> 'f feature list \<Rightarrow> real" where
  "total_length P selected = foldl (fadd P) 0 (map (\<lambda>r. line_length P (geometry r)) selected)"

section \<open>calcWaterCourseLength\<close>

text \<open>
  The leading endpoint of the dequeued feature, \<^verbatim>\<open>coords[0 - direction]\<close>, and the far
  endpoint of a candidate, \<^verbatim>\<open>coords[direction - 1]\<close>.
\<close>

definition cur_coord_of :: "'f feature list \<Rightarrow> int \<Rightarrow> 'f \<Rightarrow> error + point" where
  "cur_coord_of network direction f =
     (case first_coords (select_fid network f) of
        Inl e \<Rightarrow> Inl e
      | Inr coords \<Rightarrow> subscript coords (0 - direction))"

definition next_coord_of :: "'f feature list \<Rightarrow> int \<Rightarrow> 'f \<Rightarrow> error + point" where
  "next_coord_of network direction f =
     (case first_coords (select_fid network f) of
        Inl e \<Rightarrow> Inl e
      | Inr coords \<Rightarrow> subscript coords (direction - 1))"

text \<open>
  The \<^verbatim>\<open>for fid in potential_fids\<close> loop of the plain traversal.  The state is the pair
  \<open>(possible_vertex, found_vertex)\<close>.
\<close>

fun connect :: "provider \<Rightarrow> 'f feature list \<Rightarrow> int \<Rightarrow> real \<Rightarrow> point \<Rightarrow> 'f list \<Rightarrow>
    'f list \<times> 'f list \<Rightarrow> error + 'f list \<times> 'f list" where
  "connect P network direction tolerance cur_coord [] st = Inr st"
| "connect P network direction tolerance cur_coord (f # fs) (possible_vertex, found_vertex) =
     (if f \<in> set found_vertex
      then connect P network direction tolerance cur_coord fs (possible_vertex, found_vertex)
      else case next_coord_of network direction f of
        Inl e \<Rightarrow> Inl e
      | Inr next_coord \<Rightarrow>
          if euclid P next_coord cur_coord \<le> tolerance
          then connect P network direction tolerance cur_coord fs
                 (possible_vertex @ [f], found_vertex @ [f])
          else connect P network direction tolerance cur_coord fs
                 (possible_vertex, found_vertex))"

text \<open>One pass of the \<^verbatim>\<open>while possible_vertex\<close> body, for a non-empty queue.\<close>

definition explore :: "provider \<Rightarrow> 'f feature list \<Rightarrow> int \<Rightarrow> real \<Rightarrow>
    'f \<Rightarrow> 'f list \<times> 'f list \<Rightarrow> error + 'f list \<times> 'f list" where
  "explore P network direction tolerance f st =
     (case cur_coord_of network direction f of
        Inl e \<Rightarrow> Inl e
      | Inr cur_coord \<Rightarrow>
          connect P network direction tolerance cur_coord
            (potential_fids P network (buffer P cur_coord tolerance)) st)"

text \<open>
  The measure that decreases at every pass: twice the number of identifiers of the
  network not yet found, plus the length of the queue.
\<close>

definition unfound :: "'f feature list \<Rightarrow> 'f list \<Rightarrow> nat" where
  "unfound network found_vertex = card (fid ` set network - set found_vertex)"

definition budget :: "'f feature list \<Rightarrow> 'f list \<times> 'f list \<Rightarrow> nat" where
  "budget network st = 2 * unfound network (snd st) + length (fst st)"

lemma unfound_append:
  fixes network :: "'f feature list"
  assumes "f \<in> fid ` set network" "f \<notin> set found"
  shows "Suc (unfound network (found @ [f])) = unfound network found"
proof -
  let ?A = "fid ` set network - set found"
  have eq: "fid ` set network - set (found @ [f]) = ?A - {f}" by auto
  have "f \<in> ?A" using assms by simp
  moreover have "finite ?A" by simp
  ultimately have "Suc (card (?A - {f})) = card ?A"
    by (rule card_Suc_Diff1[rotated])
  then show ?thesis
    unfolding unfound_def eq .
qed

lemma connect_budget:
  assumes "connect P network direction tolerance c fs st = Inr st'"
    and "set fs \<subseteq> fid ` set network"
  shows "budget network st' \<le> budget network st"
  using assms
proof (induction P network direction tolerance c fs st rule: connect.induct)
  case (1 P network direction tolerance cur_coord st)
  then show ?case by simp
next
  case (2 P network direction tolerance cur_coord f fs possible_vertex found_vertex)
  show ?case
  proof (cases "f \<in> set found_vertex")
    case True
    with 2 show ?thesis by simp
  next
    case False
    from 2(4) False obtain nc where nc: "next_coord_of network direction f = Inr nc"
      by (auto split: sum.splits)
    show ?thesis
    proof (cases "euclid P nc cur_coord \<le> tolerance")
      case True
      with 2(2)[OF False nc True] 2(4,5) False nc
      have "budget network st' \<le> budget network (possible_vertex @ [f], found_vertex @ [f])"
        by simp
      moreover have "Suc (unfound network (found_vertex @ [f])) = unfound network found_vertex"
        using unfound_append[of f network found_vertex] 2(5) False by simp
      ultimately show ?thesis by (simp add: budget_def)
    next
      case nt: False
      with 2(3)[OF False nc nt] 2(4,5) False nc show ?thesis by simp
    qed
  qed
qed

lemma potential_fids_subset: "set (potential_fids P network b) \<subseteq> fid ` set network"
  by (auto simp: potential_fids_def)

lemma explore_budget:
  assumes "explore P network direction tolerance f (rest, found) = Inr st'"
  shows "budget network st' < budget network (f # rest, found)"
proof -
  from assms obtain c where
    "connect P network direction tolerance c (potential_fids P network (buffer P c tolerance))
       (rest, found) = Inr st'"
    by (auto simp: explore_def split: sum.splits)
  from connect_budget[OF this potential_fids_subset]
  show ?thesis by (simp add: budget_def)
qed

text \<open>The \<^verbatim>\<open>while possible_vertex\<close> loop: it returns \<open>found_vertex\<close>.\<close>

function trace :: "provider \<Rightarrow> 'f feature list \<Rightarrow> int \<Rightarrow> real \<Rightarrow>
    'f list \<times> 'f list \<Rightarrow> error + 'f list" where
  "trace P network direction tolerance ([], found_vertex) = Inr found_vertex"
| "trace P network direction tolerance (f # possible_vertex, found_vertex) =
     (case explore P network direction tolerance f (possible_vertex, found_vertex) of
        Inl e \<Rightarrow> Inl e
      | Inr st \<Rightarrow> trace P network direction tolerance st)"
  by pat_completeness auto
termination
  by (relation "measure (\<lambda>(P, network, direction, tolerance, st). budget network st)")
     (auto dest: explore_budget)

definition calcWaterCourseLength :: "provider \<Rightarrow> 'f \<Rightarrow> 'f gdf \<Rightarrow> int \<Rightarrow> real \<Rightarrow>
    error + 'f gdf \<times> real" where
  "calcWaterCourseLength P starting_fid network0 direction tolerance =
     (let network = (if crs network0 \<noteq> ''EPSG:27700'' then to_crs P network0 else network0);
          possible_vertex = map fid (select_fid (rows network) starting_fid);
          found_vertex = possible_vertex
      in case trace P (rows network) direction tolerance (possible_vertex, found_vertex) of
           Inl e \<Rightarrow> Inl e
         | Inr found \<Rightarrow>
             (let selected = isin (rows network) found
              in Inr (network\<lparr>rows := selected\<rparr>, total_length P selected)))"

section \<open>calcWaterCourseLengthBlockage\<close>

text \<open>
  \<^verbatim>\<open>blockage[blockage.within(next_feat.buffer(1).unary_union)]\<close>: the blockage points,
  in frame order, that lie within the buffered rows of the candidate.
\<close>

definition the_blockage :: "provider \<Rightarrow> point list \<Rightarrow> 'f feature list \<Rightarrow> point list" where
  "the_blockage P blockage next_feat =
     filter (\<lambda>b. within_buffer P b (map geometry next_feat)) blockage"

text \<open>
  Lines 143 to 145: the distances of all vertices to the blockage point, the first
  position of their minimum, and the line string of the vertices before that position.
\<close>

definition line_til_weir :: "provider \<Rightarrow> point list \<Rightarrow> point \<Rightarrow> error + point list" where
  "line_til_weir P coords b =
     (let dists = map (\<lambda>coord. euclid P coord b) coords
      in case py_min dists of
           Inl e \<Rightarrow> Inl e
         | Inr m \<Rightarrow>
             (case index dists m of
                Inl e \<Rightarrow> Inl e
              | Inr i \<Rightarrow> LineString (take i coords)))"

text \<open>
  The \<^verbatim>\<open>for fid in potential_fids\<close> loop of the blockage-aware traversal.  The state
  is \<open>(possible_vertex, found_vertex, network)\<close>: the loop overwrites geometries of the
  network it reads.
\<close>

fun connect_blockage :: "provider \<Rightarrow> point list \<Rightarrow> int \<Rightarrow> real \<Rightarrow> point \<Rightarrow> 'f list \<Rightarrow>
    'f list \<times> 'f list \<times> 'f feature list \<Rightarrow> error + 'f list \<times> 'f list \<times> 'f feature list" where
  "connect_blockage P blockage direction tolerance cur_coord [] st = Inr st"
| "connect_blockage P blockage direction tolerance cur_coord (f # fs)
       (possible_vertex, found_vertex, network) =
     (if f \<in> set found_vertex
      then connect_blockage P blockage direction tolerance cur_coord fs
             (possible_vertex, found_vertex, network)
      else case first_coords (select_fid network f) of
        Inl e \<Rightarrow> Inl e
      | Inr coords \<Rightarrow>
          (case subscript coords (direction - 1) of
             Inl e \<Rightarrow> Inl e
           | Inr next_coord \<Rightarrow>
               if euclid P next_coord cur_coord \<le> tolerance
               then (case the_blockage P blockage (select_fid network f) of
                       [] \<Rightarrow>
                         connect_blockage P blockage direction tolerance cur_coord fs
                           (possible_vertex @ [f], found_vertex @ [f], network)
                     | b # bs \<Rightarrow>
                         (case line_til_weir P coords b of
                            Inl e \<Rightarrow> Inl e
                          | Inr line \<Rightarrow>
                              connect_blockage P blockage direction tolerance cur_coord fs
                                (possible_vertex, found_vertex @ [f],
                                 set_geometry network f line)))
               else connect_blockage P blockage direction tolerance cur_coord fs
                      (possible_vertex, found_vertex, network)))"

definition explore_blockage :: "provider \<Rightarrow> point list \<Rightarrow> int \<Rightarrow> real \<Rightarrow> 'f \<Rightarrow>
    'f list \<times> 'f list \<times> 'f feature list \<Rightarrow> error + 'f list \<times> 'f list \<times> 'f feature list" where
  "explore_blockage P blockage direction tolerance f st =
     (case cur_coord_of (snd (snd st)) direction f of
        Inl e \<Rightarrow> Inl e
      | Inr cur_coord \<Rightarrow>
          connect_blockage P blockage direction tolerance cur_coord
            (potential_fids P (snd (snd st)) (buffer P cur_coord tolerance)) st)"

definition budget_blockage :: "'f list \<times> 'f list \<times> 'f feature list \<Rightarrow> nat" where
  "budget_blockage st = budget (snd (snd st)) (fst st, fst (snd st))"

lemma fid_set_geometry [simp]:
  fixes network :: "'f feature list"
  shows "map fid (set_geometry network f line) = map fid network"
  by (simp add: set_geometry_def)

lemma fid_image_set_geometry [simp]:
  fixes network :: "'f feature list"
  shows "fid ` set (set_geometry network f line) = fid ` set network"
  using arg_cong[OF fid_set_geometry[of network f line], of set]
  by (simp only: set_map)

lemma unfound_set_geometry [simp]:
  fixes network :: "'f feature list"
  shows "unfound (set_geometry network f line) found = unfound network found"
  by (simp only: unfound_def fid_image_set_geometry)

lemma connect_blockage_budget:
  fixes network :: "'f feature list"
  assumes "connect_blockage P blockage direction tolerance c fs (possible, found, network) = Inr st'"
    and "set fs \<subseteq> fid ` set network"
  shows "budget_blockage st' \<le> budget_blockage (possible, found, network)
         \<and> map fid (snd (snd st')) = map fid network"
  using assms
proof (induction fs arbitrary: possible found network)
  case Nil
  then show ?case by auto
next
  case (Cons f fs)
  show ?case
  proof (cases "f \<in> set found")
    case True
    with Cons show ?thesis by simp
  next
    case False
    from Cons.prems(1) False obtain coords nc where
      co: "first_coords (select_fid network f) = Inr coords" and
      nc: "subscript coords (direction - 1) = Inr nc"
      by (auto split: sum.splits)
    have fin: "f \<in> fid ` set network" using Cons.prems(2) by simp
    have dec: "Suc (unfound network (found @ [f])) = unfound network found"
      using unfound_append[OF fin False] .
    show ?thesis
    proof (cases "euclid P nc c \<le> tolerance")
      case far: False
      with Cons False co nc show ?thesis by simp
    next
      case near: True
      show ?thesis
      proof (cases "the_blockage P blockage (select_fid network f)")
        case Nil
        with Cons.prems False co nc near
        have "connect_blockage P blockage direction tolerance c fs
                (possible @ [f], found @ [f], network) = Inr st'"
          by simp
        from Cons.IH[OF this] Cons.prems(2) dec show ?thesis
          by (simp add: budget_blockage_def budget_def)
      next
        case (Cons b bs)
        with Cons.prems(1) False co nc near obtain line where
          run: "connect_blockage P blockage direction tolerance c fs
                (possible, found @ [f], set_geometry network f line) = Inr st'"
          by (auto split: sum.splits)
        have "set fs \<subseteq> fid ` set (set_geometry network f line)"
          using Cons.prems(2) by simp
        from Cons.IH[OF run this] dec show ?thesis
          by (simp add: budget_blockage_def budget_def)
      qed
    qed
  qed
qed

lemma explore_blockage_budget:
  fixes network :: "'f feature list"
  assumes "explore_blockage P blockage direction tolerance f (rest, found, network) = Inr st'"
  shows "budget_blockage st' < budget_blockage (f # rest, found, network)"
proof -
  from assms obtain c where
    "connect_blockage P blockage direction tolerance c
       (potential_fids P network (buffer P c tolerance)) (rest, found, network) = Inr st'"
    by (auto simp: explore_blockage_def split: sum.splits)
  from connect_blockage_budget[OF this potential_fids_subset]
  show ?thesis by (simp add: budget_blockage_def budget_def)
qed

text \<open>
  The \<^verbatim>\<open>while possible_vertex\<close> loop of the blockage-aware traversal: it returns
  \<open>found_vertex\<close> and the network as the loop leaves it.
\<close>

function trace_blockage :: "provider \<Rightarrow> point list \<Rightarrow> int \<Rightarrow> real \<Rightarrow>
    'f list \<times> 'f list \<times> 'f feature list \<Rightarrow> error + 'f list \<times> 'f feature list" where
  "trace_blockage P blockage direction tolerance ([], found_vertex, network) =
     Inr (found_vertex, network)"
| "trace_blockage P blockage direction tolerance (f # possible_vertex, found_vertex, network) =
     (case explore_blockage P blockage direction tolerance f
             (possible_vertex, found_vertex, network) of
        Inl e \<Rightarrow> Inl e
      | Inr st \<Rightarrow> trace_blockage P blockage direction tolerance st)"
  by pat_completeness auto
termination
  by (relation "measure (\<lambda>(P, blockage, direction, tolerance, st). budget_blockage st)")
     (auto dest: explore_blockage_budget)

text \<open>
  The caller passes a reference to its network frame, and line 146 writes through that
  reference.  The store holds the frames; a reference is a position in it.  When the
  reference system differs, line 93 rebinds the local name \<open>network\<close> to a new frame,
  allocated at the end of the store, and the caller's frame is no longer the one written
  to.  The blockage frame is only read.  The result is the pair \<open>(selected, length)\<close> and
  the store the call leaves behind.  The loop carries the rows of the frame it writes to
  and they are put back into the store when it ends; nothing else reads the store in
  between.  A call that raises is modelled by its error alone: the store it leaves behind
  is not part of the model.
\<close>

definition calcWaterCourseLengthBlockage :: "provider \<Rightarrow> 'f \<Rightarrow> 'f gdf list \<Rightarrow> nat \<Rightarrow>
    points_gdf \<Rightarrow> int \<Rightarrow> real \<Rightarrow> error + ('f gdf \<times> real) \<times> 'f gdf list" where
  "calcWaterCourseLengthBlockage P starting_fid store0 network0 blockage0 direction tolerance =
     (let (store, network) =
            (if crs (store0 ! network0) \<noteq> ''EPSG:27700''
             then (store0 @ [to_crs P (store0 ! network0)], length store0)
             else (store0, network0));
          blockage =
            (if pcrs blockage0 \<noteq> ''EPSG:27700'' then points_to_crs P blockage0 else blockage0);
          possible_vertex = map fid (select_fid (rows (store ! network)) starting_fid);
          found_vertex = possible_vertex
      in case trace_blockage P (pts blockage) direction tolerance
                (possible_vertex, found_vertex, rows (store ! network)) of
           Inl e \<Rightarrow> Inl e
         | Inr (found, written) \<Rightarrow>
             (let store' = store[network := (store ! network)\<lparr>rows := written\<rparr>];
                  selected = isin (rows (store' ! network)) found
              in Inr (((store' ! network)\<lparr>rows := selected\<rparr>, total_length P selected), store')))"

section \<open>Vocabulary of the properties\<close>

text \<open>
  A candidate is \<^emph>\<open>linked\<close> to the leading endpoint \<open>cur_coord\<close> when its far endpoint can
  be read and lies within \<open>tolerance\<close> of it: the test of lines 70 and 132.
\<close>

definition linked :: "provider \<Rightarrow> 'f feature list \<Rightarrow> int \<Rightarrow> real \<Rightarrow> point \<Rightarrow> 'f \<Rightarrow> bool" where
  "linked P network direction tolerance cur_coord f =
     (case next_coord_of network direction f of
        Inl e \<Rightarrow> False
      | Inr next_coord \<Rightarrow> euclid P next_coord cur_coord \<le> tolerance)"

text \<open>
  A candidate is \<^emph>\<open>blocked\<close> when \<^verbatim>\<open>the_blockage\<close> is not empty for its rows: the test of
  line 134.
\<close>

definition blocked :: "provider \<Rightarrow> point list \<Rightarrow> 'f feature list \<Rightarrow> 'f \<Rightarrow> bool" where
  "blocked P blockage network f = (the_blockage P blockage (select_fid network f) \<noteq> [])"

text \<open>
  How a row \<open>r'\<close> of the network after a pass relates to the row \<open>r\<close> it was before:
  a row of a blocked identifier of \<open>A\<close> has its geometry overwritten by the line of
  lines 142 to 145, computed from the first row of that identifier and the first blockage
  point found for it; every other row is untouched.
\<close>

definition rewritten :: "provider \<Rightarrow> point list \<Rightarrow> 'f feature list \<Rightarrow> 'f set \<Rightarrow>
    'f feature \<Rightarrow> 'f feature \<Rightarrow> bool" where
  "rewritten P blockage network A r r' =
     (if fid r \<in> A \<and> blocked P blockage network (fid r)
      then \<exists>coords b bs line.
             first_coords (select_fid network (fid r)) = Inr coords
           \<and> the_blockage P blockage (select_fid network (fid r)) = b # bs
           \<and> line_til_weir P coords b = Inr line
           \<and> r' = r\<lparr>geometry := line\<rparr>
      else r' = r)"

text \<open>
  The states the \<^verbatim>\<open>while\<close> loops go through: \<open>iterates \<dots> n st st'\<close> says that \<open>n\<close>
  passes of the loop body lead from state \<open>st\<close> to state \<open>st'\<close>.
\<close>

inductive iterates :: "provider \<Rightarrow> 'f feature list \<Rightarrow> int \<Rightarrow> real \<Rightarrow> nat \<Rightarrow>
    'f list \<times> 'f list \<Rightarrow> 'f list \<times> 'f list \<Rightarrow> bool"
  for P network direction tolerance where
  start: "iterates P network direction tolerance 0 st st"
| pass: "iterates P network direction tolerance n st (f # possible_vertex, found_vertex) \<Longrightarrow>
         explore P network direction tolerance f (possible_vertex, found_vertex) = Inr st' \<Longrightarrow>
         iterates P network direction tolerance (Suc n) st st'"

inductive iterates_blockage :: "provider \<Rightarrow> point list \<Rightarrow> int \<Rightarrow> real \<Rightarrow> nat \<Rightarrow>
    'f list \<times> 'f list \<times> 'f feature list \<Rightarrow> 'f list \<times> 'f list \<times> 'f feature list \<Rightarrow> bool"
  for P blockage direction tolerance where
  start_blockage: "iterates_blockage P blockage direction tolerance 0 st st"
| pass_blockage:
    "iterates_blockage P blockage direction tolerance n st
       (f # possible_vertex, found_vertex, network) \<Longrightarrow>
     explore_blockage P blockage direction tolerance f (possible_vertex, found_vertex, network)
       = Inr st' \<Longrightarrow>
     iterates_blockage P blockage direction tolerance (Suc n) st st'"

text \<open>
  Reachability on the network as it is given.  A feature is \<^emph>\<open>explorable\<close> from the
  starting identifier \<open>s\<close> when it is \<open>s\<close> itself, present in the network, or a
  candidate of the proximity query around the leading endpoint of an explorable feature
  that is linked to that endpoint and is not blocked.  A feature is \<^emph>\<open>selectable\<close> when
  it is explorable or such a linked candidate of an explorable feature, blocked or not.
  No chain of explorable features passes through a blocked feature other than \<open>s\<close>.
\<close>

inductive explorable :: "provider \<Rightarrow> point list \<Rightarrow> 'f feature list \<Rightarrow> int \<Rightarrow> real \<Rightarrow>
    'f \<Rightarrow> 'f \<Rightarrow> bool"
  for P blockage network direction tolerance s where
  origin: "s \<in> fid ` set network \<Longrightarrow> explorable P blockage network direction tolerance s s"
| onward: "explorable P blockage network direction tolerance s g \<Longrightarrow>
           cur_coord_of network direction g = Inr c \<Longrightarrow>
           f \<in> set (potential_fids P network (buffer P c tolerance)) \<Longrightarrow>
           linked P network direction tolerance c f \<Longrightarrow>
           \<not> blocked P blockage network f \<Longrightarrow>
           explorable P blockage network direction tolerance s f"

definition selectable :: "provider \<Rightarrow> point list \<Rightarrow> 'f feature list \<Rightarrow> int \<Rightarrow> real \<Rightarrow>
    'f \<Rightarrow> 'f \<Rightarrow> bool" where
  "selectable P blockage network direction tolerance s f =
     (explorable P blockage network direction tolerance s f
      \<or> (\<exists>g c. explorable P blockage network direction tolerance s g
             \<and> cur_coord_of network direction g = Inr c
             \<and> f \<in> set (potential_fids P network (buffer P c tolerance))
             \<and> linked P network direction tolerance c f))"

text \<open>
  The frames the functions work on after lines 32 and 33 and lines 92 to 95: the frame
  itself when it is in \<^verbatim>\<open>EPSG:27700\<close>, a reprojected copy otherwise.
\<close>

definition reprojected :: "provider \<Rightarrow> 'f gdf \<Rightarrow> 'f gdf" where
  "reprojected P network = (if crs network \<noteq> ''EPSG:27700'' then to_crs P network else network)"

definition reprojected_points :: "provider \<Rightarrow> points_gdf \<Rightarrow> points_gdf" where
  "reprojected_points P blockage =
     (if pcrs blockage \<noteq> ''EPSG:27700'' then points_to_crs P blockage else blockage)"

section \<open>Example inputs\<close>

text \<open>
  A provider for the worked examples.  Its arithmetic is exact.  On the example networks
  below that is the arithmetic of doubles: their coordinates are small integers and the
  weirs lie on quarters, so every difference, square, sum and root taken is a double and
  no operation rounds.  The tolerance \<open>1 / 10\<close> stands for the double nearest to it; it
  enters only comparisons with such numbers, which come out the same for both.  Of the
  geometry the provider looks at vertices only: a polyline intersects a box when one of
  its vertices lies between two corners of the box, and a point is within the buffered
  rows when it is less than one unit from one of their vertices.  Reprojection is the
  identity.  On the example networks, whose polylines are unit steps along the x-axis met
  only at their vertices, this is what the library computes.
\<close>

definition vertex_provider :: provider where
  "vertex_provider =
     \<lparr>fsub = (\<lambda>a b. a - b),
      fadd = (\<lambda>a b. a + b),
      fpow2 = (\<lambda>a. a\<^sup>2),
      fsqrt = sqrt,
      intersects = (\<lambda>g b. \<exists>v \<in> set g. \<exists>lo \<in> set b. \<exists>hi \<in> set b.
          fst lo \<le> fst v \<and> fst v \<le> fst hi \<and> snd lo \<le> snd v \<and> snd v \<le> snd hi),
      within_buffer = (\<lambda>p gs. \<exists>g \<in> set gs. \<exists>v \<in> set g.
          (fst v - fst p)\<^sup>2 + (snd v - snd p)\<^sup>2 < 1),
      transform = (\<lambda>c p. p)\<rparr>"

text \<open>Three features in a row along the x-axis, in the reference system of the program.\<close>

definition chain :: "nat feature list" where
  "chain =
     [\<lparr>fid = 1, geometry = [(0, 0), (1, 0)]\<rparr>,
      \<lparr>fid = 2, geometry = [(1, 0), (2, 0)]\<rparr>,
      \<lparr>fid = 3, geometry = [(2, 0), (3, 0)]\<rparr>]"

definition chain_gdf :: "nat gdf" where
  "chain_gdf = \<lparr>crs = ''EPSG:27700'', rows = chain\<rparr>"

definition no_weirs :: points_gdf where
  "no_weirs = \<lparr>pcrs = ''EPSG:27700'', pts = []\<rparr>"

text \<open>
  A river of three features along the x-axis, the middle one with four vertices, and one
  weir on the third vertex of the middle feature.
\<close>

definition river :: "nat feature list" where
  "river =
     [\<lparr>fid = 0, geometry = [(- 1, 0), (0, 0)]\<rparr>,
      \<lparr>fid = 1, geometry = [(0, 0), (1, 0), (2, 0), (3, 0)]\<rparr>,
      \<lparr>fid = 2, geometry = [(3, 0), (4, 0)]\<rparr>]"

definition river_gdf :: "nat gdf" where
  "river_gdf = \<lparr>crs = ''EPSG:27700'', rows = river\<rparr>"

definition weir :: points_gdf where
  "weir = \<lparr>pcrs = ''EPSG:27700'', pts = [(2, 0)]\<rparr>"

text \<open>Another weir for the river, on the second vertex of the middle feature.\<close>

definition weir_on_second :: points_gdf where
  "weir_on_second = \<lparr>pcrs = ''EPSG:27700'', pts = [(1, 0)]\<rparr>"

text \<open>
  Two single weirs on feature 1 of the chain, one nearer to its second vertex, where it
  joins feature 2, and one nearer to its first vertex; and a network whose only feature
  has the empty line string as geometry.
\<close>

definition weir_near_junction :: points_gdf where
  "weir_near_junction = \<lparr>pcrs = ''EPSG:27700'', pts = [(3 / 4, 0)]\<rparr>"

definition weir_near_source :: points_gdf where
  "weir_near_source = \<lparr>pcrs = ''EPSG:27700'', pts = [(1 / 4, 0)]\<rparr>"

definition hollow_gdf :: "nat gdf" where
  "hollow_gdf = \<lparr>crs = ''EPSG:27700'', rows = [\<lparr>fid = 1, geometry = []\<rparr>]\<rparr>"

text \<open>
  The river and its weir declared in another reference system, and a provider whose
  reprojection is not the identity: it stands for the reprojection from that system and
  moves every point one unit to the east, so that the reprojected river and weir are the
  river and the weir above.
\<close>

definition shift_provider :: provider where
  "shift_provider = vertex_provider\<lparr>transform := (\<lambda>c p. (fst p + 1, snd p))\<rparr>"

definition river_wgs :: "nat gdf" where
  "river_wgs =
     \<lparr>crs = ''EPSG:4326'',
      rows = [\<lparr>fid = 0, geometry = [(- 2, 0), (- 1, 0)]\<rparr>,
              \<lparr>fid = 1, geometry = [(- 1, 0), (0, 0), (1, 0), (2, 0)]\<rparr>,
              \<lparr>fid = 2, geometry = [(2, 0), (3, 0)]\<rparr>]\<rparr>"

definition weir_wgs :: points_gdf where
  "weir_wgs = \<lparr>pcrs = ''EPSG:4326'', pts = [(1, 0)]\<rparr>"

text \<open>
  The arithmetic of doubles on numbers of ordinary size: the exact result rounded to the
  nearest number with a significand of 53 bits, a tie going to the even significand.
  Overflow and the subnormal range are left out.  \<open>double_provider\<close> is the example
  provider with this arithmetic in place of the exact one: subtraction, addition and
  \<^verbatim>\<open>math.sqrt\<close> round in this way on every double, and so does \<^verbatim>\<open>** 2\<close> on the two
  numbers squared below (\<^verbatim>\<open>0.6 ** 2\<close> is \<^verbatim>\<open>0.36\<close> and \<^verbatim>\<open>0.8 ** 2\<close> is
  \<^verbatim>\<open>0.6400000000000001\<close>).
\<close>

definition round_even :: "real \<Rightarrow> int" where
  "round_even x =
     (if x - of_int \<lfloor>x\<rfloor> < 1 / 2 then \<lfloor>x\<rfloor>
      else if 1 / 2 < x - of_int \<lfloor>x\<rfloor> then \<lfloor>x\<rfloor> + 1
      else if even \<lfloor>x\<rfloor> then \<lfloor>x\<rfloor> else \<lfloor>x\<rfloor> + 1)"

definition round_double :: "real \<Rightarrow> real" where
  "round_double x =
     (if x = 0 then 0
      else of_int (round_even (x / 2 powr of_int (\<lfloor>log 2 \<bar>x\<bar>\<rfloor> - 52)))
           * 2 powr of_int (\<lfloor>log 2 \<bar>x\<bar>\<rfloor> - 52))"

definition double_provider :: provider where
  "double_provider =
     vertex_provider
       \<lparr>fsub := (\<lambda>a b. round_double (a - b)),
        fadd := (\<lambda>a b. round_double (a + b)),
        fpow2 := (\<lambda>a. round_double (a * a)),
        fsqrt := (\<lambda>a. round_double (sqrt a))\<rparr>"

text \<open>
  The doubles nearest to 0.6 and 0.8, and a network of two features: the first starts at
  the origin, the second ends at the point with these two coordinates.
\<close>

definition d06 :: real where "d06 = 5404319552844595 / 2 ^ 53"
definition d08 :: real where "d08 = 3602879701896397 / 2 ^ 52"

definition slanted :: "nat feature list" where
  "slanted =
     [\<lparr>fid = 1, geometry = [(0, 0), (0, - 1)]\<rparr>,
      \<lparr>fid = 2, geometry = [(1, 1), (d06, d08)]\<rparr>]"

section \<open>Basic facts\<close>

text \<open>The fields of the example provider, and its distance between points of equal height.\<close>

lemma vertex_provider_fields:
  "fsub vertex_provider a b = a - b"
  "fadd vertex_provider a b = a + b"
  "intersects vertex_provider g bx = (\<exists>v \<in> set g. \<exists>lo \<in> set bx. \<exists>hi \<in> set bx.
      fst lo \<le> fst v \<and> fst v \<le> fst hi \<and> snd lo \<le> snd v \<and> snd v \<le> snd hi)"
  "within_buffer vertex_provider p gs = (\<exists>g \<in> set gs. \<exists>v \<in> set g.
      (fst v - fst p)\<^sup>2 + (snd v - snd p)\<^sup>2 < 1)"
  "transform vertex_provider c q = q"
  by (simp_all add: vertex_provider_def)

lemma euclid_same_y: "euclid vertex_provider (a, y) (b, y) = \<bar>a - b\<bar>"
  by (simp add: euclid_def vertex_provider_def)

lemma shift_provider_fields:
  "fsub shift_provider a b = a - b"
  "fadd shift_provider a b = a + b"
  "intersects shift_provider g bx = (\<exists>v \<in> set g. \<exists>lo \<in> set bx. \<exists>hi \<in> set bx.
      fst lo \<le> fst v \<and> fst v \<le> fst hi \<and> snd lo \<le> snd v \<and> snd v \<le> snd hi)"
  "within_buffer shift_provider p gs = (\<exists>g \<in> set gs. \<exists>v \<in> set g.
      (fst v - fst p)\<^sup>2 + (snd v - snd p)\<^sup>2 < 1)"
  "transform shift_provider c q = (fst q + 1, snd q)"
  by (simp_all add: shift_provider_def vertex_provider_def)

lemma euclid_same_y_shift: "euclid shift_provider (a, y) (b, y) = \<bar>a - b\<bar>"
  by (simp add: euclid_def shift_provider_def vertex_provider_def)

text \<open>The definitions a concrete run unfolds.\<close>

lemmas eval_defs = explore_def explore_blockage_def cur_coord_of_def next_coord_of_def
  first_coords_def select_fid_def subscript_def potential_fids_def buffer_def euclid_same_y
  vertex_provider_fields the_blockage_def line_til_weir_def py_min_def LineString_def
  set_geometry_def isin_def total_length_def Let_def power2_eq_square

lemma select_fid_absent:
  fixes network :: "'f feature list"
  shows "f \<notin> fid ` set network \<Longrightarrow> select_fid network f = []"
  by (auto simp: select_fid_def filter_empty_conv)

lemma fid_rows_to_crs [simp]:
  fixes network :: "'f gdf"
  shows "map fid (rows (to_crs P network)) = map fid (rows network)"
  by (simp add: to_crs_def)

lemma fid_image_to_crs [simp]:
  fixes network :: "'f gdf"
  shows "fid ` set (rows (to_crs P network)) = fid ` set (rows network)"
  using arg_cong[OF fid_rows_to_crs[of P network], of set]
  by (simp only: set_map)

lemma isin_Nil [simp]: "isin network [] = []"
  by (simp add: isin_def)

lemma total_length_Nil [simp]: "total_length P [] = 0"
  by (simp add: total_length_def)

section \<open>What one \<^verbatim>\<open>for\<close> loop does\<close>

text \<open>
  The plain loop appends to the queue and to \<open>found_vertex\<close> the same list: the
  candidates not yet found that are linked, each once, in the order of their first
  occurrence.  It returns only if the far endpoint of every candidate not yet found can be
  read.
\<close>

lemma connect_appends:
  assumes "connect P network direction tolerance c fs (possible, found) = Inr (possible', found')"
  shows "\<exists>new. possible' = possible @ new \<and> found' = found @ new \<and> distinct new
           \<and> set new = {f \<in> set fs. f \<notin> set found \<and> linked P network direction tolerance c f}
           \<and> (\<forall>f \<in> set fs. f \<notin> set found \<longrightarrow>
                  (\<exists>nc. next_coord_of network direction f = Inr nc))"
  using assms
proof (induction fs arbitrary: possible found)
  case Nil
  then show ?case by simp
next
  case (Cons f fs)
  show ?case
  proof (cases "f \<in> set found")
    case True
    with Cons.prems have "connect P network direction tolerance c fs (possible, found)
        = Inr (possible', found')" by simp
    from Cons.IH[OF this] obtain new where
      n: "possible' = possible @ new" "found' = found @ new" "distinct new"
         "set new = {f \<in> set fs. f \<notin> set found \<and> linked P network direction tolerance c f}"
         "\<forall>f \<in> set fs. f \<notin> set found \<longrightarrow> (\<exists>nc. next_coord_of network direction f = Inr nc)"
      by blast
    have "set new = {g \<in> set (f # fs). g \<notin> set found \<and> linked P network direction tolerance c g}"
      using n(4) True by auto
    with n True show ?thesis by auto
  next
    case False
    from Cons.prems False obtain nc where nc: "next_coord_of network direction f = Inr nc"
      by (auto split: sum.splits)
    show ?thesis
    proof (cases "euclid P nc c \<le> tolerance")
      case True
      then have lf: "linked P network direction tolerance c f" by (simp add: linked_def nc)
      from Cons.prems False nc True
      have "connect P network direction tolerance c fs (possible @ [f], found @ [f])
        = Inr (possible', found')" by simp
      from Cons.IH[OF this] obtain new where
        n: "possible' = (possible @ [f]) @ new" "found' = (found @ [f]) @ new" "distinct new"
         "set new = {g \<in> set fs. g \<notin> set (found @ [f]) \<and> linked P network direction tolerance c g}"
         "\<forall>g \<in> set fs. g \<notin> set (found @ [f]) \<longrightarrow> (\<exists>nc. next_coord_of network direction g = Inr nc)"
        by blast
      have 1: "distinct (f # new)" using n(3,4) by auto
      have 2: "set (f # new) = {g \<in> set (f # fs). g \<notin> set found \<and> linked P network direction tolerance c g}"
        using n(4) False lf by auto
      have 3: "\<forall>g \<in> set (f # fs). g \<notin> set found \<longrightarrow> (\<exists>nc. next_coord_of network direction g = Inr nc)"
        using n(5) nc by auto
      have "possible' = possible @ (f # new)" "found' = found @ (f # new)" using n(1,2) by simp_all
      with 1 2 3 show ?thesis by blast
    next
      case far: False
      then have lf: "\<not> linked P network direction tolerance c f" by (simp add: linked_def nc)
      from Cons.prems False nc far
      have "connect P network direction tolerance c fs (possible, found)
        = Inr (possible', found')" by simp
      from Cons.IH[OF this] obtain new where
        n: "possible' = possible @ new" "found' = found @ new" "distinct new"
         "set new = {f \<in> set fs. f \<notin> set found \<and> linked P network direction tolerance c f}"
         "\<forall>f \<in> set fs. f \<notin> set found \<longrightarrow> (\<exists>nc. next_coord_of network direction f = Inr nc)"
        by blast
      have 2: "set new = {g \<in> set (f # fs). g \<notin> set found \<and> linked P network direction tolerance c g}"
        using n(4) lf by auto
      have 3: "\<forall>g \<in> set (f # fs). g \<notin> set found \<longrightarrow> (\<exists>nc. next_coord_of network direction g = Inr nc)"
        using n(5) nc by auto
      from n(1,2,3) 2 3 show ?thesis by blast
    qed
  qed
qed

text \<open>
  The blockage-aware loop appends the same identifiers to \<open>found_vertex\<close>, only those
  that are not blocked to the queue, and rewrites the rows of those that are blocked.
  An identifier not yet found has the rows it had when the loop started, so the tests can
  be stated on the network the loop starts from.
\<close>

lemma select_fid_set_geometry:
  fixes network :: "'f feature list"
  shows "g \<noteq> f \<Longrightarrow> select_fid (set_geometry network f line) g = select_fid network g"
  unfolding select_fid_def set_geometry_def
  by (induction network) auto

lemma linked_set_geometry:
  fixes network :: "'f feature list"
  shows "g \<noteq> f \<Longrightarrow> linked P (set_geometry network f line) d t c g = linked P network d t c g"
  by (simp add: linked_def next_coord_of_def select_fid_set_geometry)

lemma blocked_set_geometry:
  fixes network :: "'f feature list"
  shows "g \<noteq> f \<Longrightarrow> blocked P bl (set_geometry network f line) g = blocked P bl network g"
  by (simp add: blocked_def select_fid_set_geometry)

lemma rewritten_refl:
  fixes network :: "'f feature list"
  shows "list_all2 (rewritten P bl network {}) network network"
  by (simp add: list_all2_same rewritten_def)

lemma rewritten_mono:
  fixes network :: "'f feature list"
  assumes "list_all2 (rewritten P bl network A) network network'"
    and "\<And>g. g \<in> fid ` set network \<Longrightarrow> blocked P bl network g \<Longrightarrow> (g \<in> A) = (g \<in> B)"
  shows "list_all2 (rewritten P bl network B) network network'"
proof -
  have "\<And>r r'. r \<in> set network \<Longrightarrow> rewritten P bl network A r r' \<Longrightarrow> rewritten P bl network B r r'"
  proof -
    fix r r' assume r: "r \<in> set network" and rw: "rewritten P bl network A r r'"
    show "rewritten P bl network B r r'"
    proof (cases "blocked P bl network (fid r)")
      case True
      with assms(2)[of "fid r"] r have "(fid r \<in> A) = (fid r \<in> B)" by blast
      with rw show ?thesis by (simp add: rewritten_def)
    next
      case False
      with rw show ?thesis by (simp add: rewritten_def)
    qed
  qed
  with assms(1) show ?thesis
    by (auto simp: list_all2_conv_all_nth)
qed

lemma rewritten_set_geometry:
  fixes network :: "'f feature list"
  assumes "first_coords (select_fid network f) = Inr coords"
    and "the_blockage P bl (select_fid network f) = b # bs"
    and "line_til_weir P coords b = Inr line"
  shows "list_all2 (rewritten P bl network {f}) network (set_geometry network f line)"
  using assms
  by (auto simp: list_all2_conv_all_nth set_geometry_def rewritten_def blocked_def)

lemma rewritten_step:
  fixes network :: "'f feature list"
  assumes one: "list_all2 (rewritten P bl network {f}) network (set_geometry network f line)"
    and rest: "list_all2 (rewritten P bl (set_geometry network f line) A)
                 (set_geometry network f line) network'"
    and "f \<notin> A"
  shows "list_all2 (rewritten P bl network (insert f A)) network network'"
proof (rule list_all2_trans[OF _ one rest])
  fix r r'' r'
  assume a: "rewritten P bl network {f} r r''"
    and b: "rewritten P bl (set_geometry network f line) A r'' r'"
  have fr: "fid r'' = fid r" using a by (auto simp: rewritten_def split: if_splits)
  show "rewritten P bl network (insert f A) r r'"
  proof (cases "fid r = f")
    case True
    with b fr assms(3) have "r' = r''" by (simp add: rewritten_def)
    with a True show ?thesis by (simp add: rewritten_def)
  next
    case False
    with a have eq: "r'' = r" by (simp add: rewritten_def)
    from False have s: "select_fid (set_geometry network f line) (fid r) = select_fid network (fid r)"
      by (rule select_fid_set_geometry)
    from False have bl: "blocked P bl (set_geometry network f line) (fid r) = blocked P bl network (fid r)"
      by (rule blocked_set_geometry)
    from b show ?thesis
      unfolding eq rewritten_def bl s using False by simp
  qed
qed

lemma connect_blockage_appends:
  fixes network :: "'f feature list"
  assumes "connect_blockage P bl d t c fs (possible, found, network) = Inr (possible', found', network')"
  shows "\<exists>new. found' = found @ new \<and> distinct new
           \<and> set new = {f \<in> set fs. f \<notin> set found \<and> linked P network d t c f}
           \<and> possible' = possible @ filter (\<lambda>f. \<not> blocked P bl network f) new
           \<and> list_all2 (rewritten P bl network (set new)) network network'"
  using assms
proof (induction fs arbitrary: possible found network)
  case Nil
  then show ?case by (simp add: rewritten_refl)
next
  case (Cons f fs)
  show ?case
  proof (cases "f \<in> set found")
    case True
    with Cons.prems have "connect_blockage P bl d t c fs (possible, found, network)
        = Inr (possible', found', network')" by simp
    from Cons.IH[OF this] obtain new where
      n: "found' = found @ new" "distinct new"
         "set new = {f \<in> set fs. f \<notin> set found \<and> linked P network d t c f}"
         "possible' = possible @ filter (\<lambda>f. \<not> blocked P bl network f) new"
         "list_all2 (rewritten P bl network (set new)) network network'"
      by blast
    have "set new = {g \<in> set (f # fs). g \<notin> set found \<and> linked P network d t c g}"
      using n(3) True by auto
    with n show ?thesis by blast
  next
    case False
    from Cons.prems False obtain coords nc where
      co: "first_coords (select_fid network f) = Inr coords" and
      nc: "subscript coords (d - 1) = Inr nc"
      by (auto split: sum.splits)
    have lk: "linked P network d t c f = (euclid P nc c \<le> t)"
      by (simp add: linked_def next_coord_of_def co nc)
    show ?thesis
    proof (cases "euclid P nc c \<le> t")
      case far: False
      with Cons.prems False co nc
      have "connect_blockage P bl d t c fs (possible, found, network)
        = Inr (possible', found', network')" by simp
      from Cons.IH[OF this] obtain new where
        n: "found' = found @ new" "distinct new"
         "set new = {f \<in> set fs. f \<notin> set found \<and> linked P network d t c f}"
         "possible' = possible @ filter (\<lambda>f. \<not> blocked P bl network f) new"
         "list_all2 (rewritten P bl network (set new)) network network'"
        by blast
      have "set new = {g \<in> set (f # fs). g \<notin> set found \<and> linked P network d t c g}"
        using n(3) far lk by auto
      with n show ?thesis by blast
    next
      case near: True
      show ?thesis
      proof (cases "the_blockage P bl (select_fid network f)")
        case Nil
        then have nb: "\<not> blocked P bl network f" by (simp add: blocked_def)
        from Nil Cons.prems False co nc near
        have "connect_blockage P bl d t c fs (possible @ [f], found @ [f], network)
          = Inr (possible', found', network')" by simp
        from Cons.IH[OF this] obtain new where
          n: "found' = (found @ [f]) @ new" "distinct new"
           "set new = {g \<in> set fs. g \<notin> set (found @ [f]) \<and> linked P network d t c g}"
           "possible' = (possible @ [f]) @ filter (\<lambda>f. \<not> blocked P bl network f) new"
           "list_all2 (rewritten P bl network (set new)) network network'"
          by blast
        have 1: "found' = found @ (f # new)" using n(1) by simp
        have 2: "distinct (f # new)" using n(2,3) by auto
        have 3: "set (f # new) = {g \<in> set (f # fs). g \<notin> set found \<and> linked P network d t c g}"
          using n(3) False lk near by auto
        have 4: "possible' = possible @ filter (\<lambda>f. \<not> blocked P bl network f) (f # new)"
          using n(4) nb by simp
        have 5: "list_all2 (rewritten P bl network (set (f # new))) network network'"
          by (rule rewritten_mono[OF n(5)]) (use nb in auto)
        from 1 2 3 4 5 show ?thesis by blast
      next
        case (Cons b bs)
        then have isb: "blocked P bl network f" by (simp add: blocked_def)
        from Cons Cons.prems False co nc near obtain line where
          ln: "line_til_weir P coords b = Inr line" and
          run: "connect_blockage P bl d t c fs
                (possible, found @ [f], set_geometry network f line)
                = Inr (possible', found', network')"
          by (auto split: sum.splits)
        let ?net = "set_geometry network f line"
        from Cons.IH[OF run] obtain new where
          n: "found' = (found @ [f]) @ new" "distinct new"
           "set new = {g \<in> set fs. g \<notin> set (found @ [f]) \<and> linked P ?net d t c g}"
           "possible' = possible @ filter (\<lambda>f. \<not> blocked P bl ?net f) new"
           "list_all2 (rewritten P bl ?net (set new)) ?net network'"
          by blast
        have fn: "f \<notin> set new" using n(3) by auto
        have 1: "found' = found @ (f # new)" using n(1) by simp
        have 2: "distinct (f # new)" using n(2) fn by simp
        have L: "\<And>g. g \<noteq> f \<Longrightarrow> linked P ?net d t c g = linked P network d t c g"
          by (rule linked_set_geometry)
        have B: "\<And>g. g \<noteq> f \<Longrightarrow> blocked P bl ?net g = blocked P bl network g"
          by (rule blocked_set_geometry)
        have "set new = {g \<in> set fs. g \<notin> set (found @ [f]) \<and> linked P network d t c g}"
          unfolding n(3) using L by auto
        then have 3: "set (f # new) = {g \<in> set (f # fs). g \<notin> set found \<and> linked P network d t c g}"
          using False lk near by auto
        have "filter (\<lambda>f. \<not> blocked P bl ?net f) new = filter (\<lambda>f. \<not> blocked P bl network f) new"
        proof (rule filter_cong[OF refl])
          fix g assume "g \<in> set new"
          with fn have "g \<noteq> f" by auto
          then show "(\<not> blocked P bl ?net g) = (\<not> blocked P bl network g)"
            by (simp add: B)
        qed
        then have 4: "possible' = possible @ filter (\<lambda>f. \<not> blocked P bl network f) (f # new)"
          using n(4) isb by simp
        have 5: "list_all2 (rewritten P bl network (set (f # new))) network network'"
          using rewritten_step[OF rewritten_set_geometry[OF co Cons ln] n(5) fn] by simp
        show ?thesis
          by (rule exI[of _ "f # new"]) (use 1 2 3 4 5 in blast)
      qed
    qed
  qed
qed

section \<open>The \<^verbatim>\<open>while\<close> loops\<close>

text \<open>What one pass of a loop body does to the queue and to \<open>found_vertex\<close>.\<close>

lemma explore_appends:
  assumes "explore P network direction tolerance f (possible, found) = Inr (possible', found')"
  shows "\<exists>new. possible' = possible @ new \<and> found' = found @ new \<and> distinct new
           \<and> set new \<inter> set found = {}"
proof -
  from assms obtain c where
    "connect P network direction tolerance c (potential_fids P network (buffer P c tolerance))
       (possible, found) = Inr (possible', found')"
    by (auto simp: explore_def split: sum.splits)
  from connect_appends[OF this] show ?thesis by blast
qed

lemma explore_blockage_appends:
  fixes network :: "'f feature list"
  assumes "explore_blockage P bl d t f (possible, found, network) = Inr (possible', found', network')"
  shows "\<exists>new. found' = found @ new \<and> distinct new \<and> set new \<inter> set found = {}
           \<and> set possible' \<subseteq> set possible \<union> set new"
proof -
  from assms obtain c where
    "connect_blockage P bl d t c (potential_fids P network (buffer P c t))
       (possible, found, network) = Inr (possible', found', network')"
    by (auto simp: explore_blockage_def split: sum.splits)
  from connect_blockage_appends[OF this] obtain new where
    n: "found' = found @ new" "distinct new"
       "set new = {f \<in> set (potential_fids P network (buffer P c t)). f \<notin> set found \<and> linked P network d t c f}"
       "possible' = possible @ filter (\<lambda>f. \<not> blocked P bl network f) new"
    by blast
  have "set new \<inter> set found = {}" using n(3) by auto
  moreover have "set possible' \<subseteq> set possible \<union> set new" using n(4) by auto
  ultimately show ?thesis using n(1,2) by blast
qed

lemma iterates_invariant:
  assumes "iterates P network direction tolerance n (seed, seed) st"
  shows "set (fst st) \<subseteq> set (snd st)
       \<and> (\<exists>new. snd st = seed @ new \<and> distinct new \<and> set new \<inter> set seed = {})
       \<and> n + budget network st \<le> budget network (seed, seed)"
  using assms
proof (induction n "(seed, seed)" st rule: iterates.induct)
  case start
  show ?case by simp
next
  case (pass n f possible found st')
  obtain possible' found' where st': "st' = (possible', found')" by (cases st')
  from pass.hyps(2) obtain new0 where
    i: "set (f # possible) \<subseteq> set found" "found = seed @ new0" "distinct new0"
       "set new0 \<inter> set seed = {}" "n + budget network (f # possible, found) \<le> budget network (seed, seed)"
    by auto
  from explore_appends[OF pass.hyps(3)[unfolded st']] obtain new where
    e: "possible' = possible @ new" "found' = found @ new" "distinct new" "set new \<inter> set found = {}"
    by blast
  have 1: "set possible' \<subseteq> set found'" using i(1) e(1,2) by auto
  have 2: "found' = seed @ (new0 @ new)" using i(2) e(2) by simp
  have 3: "distinct (new0 @ new)" using i(2,3) e(3,4) by auto
  have 4: "set (new0 @ new) \<inter> set seed = {}" using i(2,4) e(4) by auto
  have 5: "Suc n + budget network st' \<le> budget network (seed, seed)"
    using explore_budget[OF pass.hyps(3)] i(5) by simp
  from 1 2 3 4 5 show ?case unfolding st' by (simp only: fst_conv snd_conv) blast
qed

lemma iterates_blockage_invariant:
  fixes network :: "'f feature list"
  assumes "iterates_blockage P blockage direction tolerance n (seed, seed, network) st"
  shows "set (fst st) \<subseteq> set (fst (snd st))
       \<and> (\<exists>new. fst (snd st) = seed @ new \<and> distinct new \<and> set new \<inter> set seed = {})
       \<and> n + budget_blockage st \<le> budget_blockage (seed, seed, network)"
  using assms
proof (induction n "(seed, seed, network)" st rule: iterates_blockage.induct)
  case start_blockage
  show ?case by simp
next
  case (pass_blockage n f possible found net st')
  obtain possible' found' net' where st': "st' = (possible', found', net')" by (cases st')
  from pass_blockage.hyps(2) obtain new0 where
    i: "set (f # possible) \<subseteq> set found" "found = seed @ new0" "distinct new0"
       "set new0 \<inter> set seed = {}"
       "n + budget_blockage (f # possible, found, net) \<le> budget_blockage (seed, seed, network)"
    by auto
  from explore_blockage_appends[OF pass_blockage.hyps(3)[unfolded st']] obtain new where
    e: "found' = found @ new" "distinct new" "set new \<inter> set found = {}"
       "set possible' \<subseteq> set possible \<union> set new"
    by blast
  have 1: "set possible' \<subseteq> set found'" using i(1) e(1,4) by auto
  have 2: "found' = seed @ (new0 @ new)" using i(2) e(1) by simp
  have 3: "distinct (new0 @ new)" using i(2,3) e(2,3) by auto
  have 4: "set (new0 @ new) \<inter> set seed = {}" using i(2,4) e(3) by auto
  have 5: "Suc n + budget_blockage st' \<le> budget_blockage (seed, seed, network)"
    using explore_blockage_budget[OF pass_blockage.hyps(3)] i(5) by simp
  from 1 2 3 4 5 show ?case unfolding st' by (simp only: fst_conv snd_conv) blast
qed

lemma iterates_first:
  assumes "iterates P network direction tolerance n st' st''"
    and "explore P network direction tolerance f (possible, found) = Inr st'"
  shows "iterates P network direction tolerance (Suc n) (f # possible, found) st''"
  using assms
proof (induction rule: iterates.induct)
  case (start st)
  from iterates.pass[OF iterates.start start] show ?case .
next
  case (pass n st g possible_vertex found_vertex st')
  from iterates.pass[OF pass.IH[OF pass.prems] pass.hyps(2)] show ?case .
qed

lemma trace_iterates:
  assumes "trace P network direction tolerance st = Inr found"
  shows "\<exists>n. iterates P network direction tolerance n st ([], found)"
  using assms
proof (induction P network direction tolerance st rule: trace.induct)
  case (1 P network direction tolerance found_vertex)
  then show ?case by (auto intro: iterates.start)
next
  case (2 P network direction tolerance f possible_vertex found_vertex)
  from 2(2) obtain st' where
    e: "explore P network direction tolerance f (possible_vertex, found_vertex) = Inr st'"
    and t: "trace P network direction tolerance st' = Inr found"
    by (auto split: sum.splits)
  from 2(1)[OF e t] obtain n where "iterates P network direction tolerance n st' ([], found)" ..
  from iterates_first[OF this e] show ?case ..
qed

lemma iterates_blockage_first:
  assumes "iterates_blockage P blockage direction tolerance n st' st''"
    and "explore_blockage P blockage direction tolerance f (possible, found, network) = Inr st'"
  shows "iterates_blockage P blockage direction tolerance (Suc n) (f # possible, found, network) st''"
  using assms
proof (induction rule: iterates_blockage.induct)
  case (start_blockage st)
  from iterates_blockage.pass_blockage[OF iterates_blockage.start_blockage start_blockage]
  show ?case .
next
  case (pass_blockage n st g possible_vertex found_vertex net st')
  from iterates_blockage.pass_blockage[OF pass_blockage.IH[OF pass_blockage.prems]
      pass_blockage.hyps(2)]
  show ?case .
qed

lemma trace_blockage_iterates:
  assumes "trace_blockage P blockage direction tolerance st = Inr (found, written)"
  shows "\<exists>n. iterates_blockage P blockage direction tolerance n st ([], found, written)"
  using assms
proof (induction P blockage direction tolerance st rule: trace_blockage.induct)
  case (1 P blockage direction tolerance found_vertex network)
  then show ?case by (auto intro: iterates_blockage.start_blockage)
next
  case (2 P blockage direction tolerance f possible_vertex found_vertex network)
  from 2(2) obtain st' where
    e: "explore_blockage P blockage direction tolerance f
          (possible_vertex, found_vertex, network) = Inr st'"
    and t: "trace_blockage P blockage direction tolerance st' = Inr (found, written)"
    by (auto split: sum.splits)
  from 2(1)[OF e t] obtain n where
    "iterates_blockage P blockage direction tolerance n st' ([], found, written)" ..
  from iterates_blockage_first[OF this e] show ?case ..
qed

section \<open>The network across the passes\<close>

text \<open>
  The tests of a pass read only the rows of the identifier they are about, and a pass
  rewrites only rows of identifiers it has just found.  So the network after any number
  of passes is the given network with the rows of the blocked identifiers found since the
  start rewritten, the queue holds explorable features only, and \<open>found_vertex\<close> holds
  selectable ones only.
\<close>

lemma rewritten_fid:
  "rewritten P bl network A r r' \<Longrightarrow> fid r' = fid r"
  by (auto simp: rewritten_def split: if_splits)

lemma rewritten_select_same:
  fixes network :: "'f feature list"
  assumes "list_all2 (rewritten P bl network A) xs ys"
    and "g \<notin> A \<or> \<not> blocked P bl network g"
  shows "select_fid ys g = select_fid xs g"
  using assms(1)
proof (induction rule: list_all2_induct)
  case Nil
  show ?case by simp
next
  case (Cons r xs r' ys)
  have f: "fid r' = fid r" using Cons.hyps(1) by (rule rewritten_fid)
  show ?case
  proof (cases "fid r = g")
    case True
    with Cons.hyps(1) assms(2) have "r' = r" by (auto simp: rewritten_def)
    with Cons.IH show ?thesis by (simp add: select_fid_def)
  next
    case False
    with f Cons.IH show ?thesis by (simp add: select_fid_def)
  qed
qed

lemma potential_fids_select:
  fixes network :: "'f feature list"
  shows "f \<in> set (potential_fids P network b)
     \<longleftrightarrow> (\<exists>r \<in> set (select_fid network f). intersects P (geometry r) b)"
  by (auto simp: potential_fids_def select_fid_def)

lemma linked_select:
  fixes network :: "'f feature list"
  shows "select_fid network' f = select_fid network f \<Longrightarrow>
    linked P network' d t c f = linked P network d t c f"
  by (simp add: linked_def next_coord_of_def)

lemma blocked_select:
  fixes network :: "'f feature list"
  shows "select_fid network' f = select_fid network f \<Longrightarrow>
    blocked P bl network' f = blocked P bl network f"
  by (simp add: blocked_def)

lemma cur_coord_of_select:
  fixes network :: "'f feature list"
  shows "select_fid network' f = select_fid network f \<Longrightarrow>
    cur_coord_of network' d f = cur_coord_of network d f"
  by (simp add: cur_coord_of_def)

lemma rewritten_trans:
  fixes network :: "'f feature list"
  assumes one: "list_all2 (rewritten P bl network A) network network'"
    and two: "list_all2 (rewritten P bl network' B) network' network''"
    and disj: "A \<inter> B = {}"
  shows "list_all2 (rewritten P bl network (A \<union> B)) network network''"
proof (rule list_all2_trans[OF _ one two])
  fix r r' r''
  assume a: "rewritten P bl network A r r'" and b: "rewritten P bl network' B r' r''"
  have fr: "fid r' = fid r" using a by (rule rewritten_fid)
  show "rewritten P bl network (A \<union> B) r r''"
  proof (cases "fid r \<in> A \<and> blocked P bl network (fid r)")
    case True
    with disj have "fid r \<notin> B" by auto
    with b fr have "r'' = r'" by (simp add: rewritten_def)
    with a True show ?thesis by (simp add: rewritten_def)
  next
    case False
    with a have eq: "r' = r" by (simp add: rewritten_def)
    show ?thesis
    proof (cases "fid r \<in> B")
      case inB: True
      with disj have "fid r \<notin> A" by auto
      then have s: "select_fid network' (fid r) = select_fid network (fid r)"
        using rewritten_select_same[OF one] by blast
      then have bl: "blocked P bl network' (fid r) = blocked P bl network (fid r)"
        by (rule blocked_select)
      from b show ?thesis
        unfolding eq rewritten_def bl s using inB by simp
    next
      case notB: False
      with b eq have "r'' = r" by (simp add: rewritten_def)
      with False notB show ?thesis by (auto simp: rewritten_def)
    qed
  qed
qed

lemma explorable_untouched:
  fixes network :: "'f feature list"
  assumes "explorable P bl network d t s g"
  shows "g \<in> set (map fid (select_fid network s)) \<or> \<not> blocked P bl network g"
  using assms
proof (cases rule: explorable.cases)
  case origin
  then obtain r where "r \<in> set network" "fid r = s" by auto
  then have "r \<in> set (select_fid network s)" by (simp add: select_fid_def)
  with origin(1) \<open>fid r = s\<close> show ?thesis by force
next
  case (onward g' c)
  then show ?thesis by simp
qed

lemma seed_only_start:
  fixes network :: "'f feature list"
  shows "set (map fid (select_fid network s)) \<subseteq> {s}"
  by (auto simp: select_fid_def)

lemma iterates_blockage_frame:
  fixes network :: "'f feature list"
  assumes "iterates_blockage P bl d t n (seed, seed, network) st"
    and seed: "seed = map fid (select_fid network s)"
  shows "list_all2 (rewritten P bl network (set (fst (snd st)) - set seed))
           network (snd (snd st))
       \<and> (\<forall>f \<in> set (fst st). explorable P bl network d t s f)
       \<and> (\<forall>f \<in> set (fst (snd st)). selectable P bl network d t s f)"
  using assms(1)
proof (induction n "(seed, seed, network)" st rule: iterates_blockage.induct)
  case start_blockage
  have "\<forall>f \<in> set seed. explorable P bl network d t s f"
  proof
    fix f assume f: "f \<in> set seed"
    with seed have "f = s" by (auto simp: select_fid_def)
    moreover from f seed have "s \<in> fid ` set network" by (auto simp: select_fid_def)
    ultimately show "explorable P bl network d t s f" by (simp add: explorable.origin)
  qed
  then show ?case by (simp add: rewritten_refl selectable_def)
next
  case (pass_blockage n g possible found net1 st')
  obtain possible' found' net2 where st': "st' = (possible', found', net2)" by (cases st')
  let ?A = "set found - set seed"
  from pass_blockage.hyps(2) have
    I1: "list_all2 (rewritten P bl network ?A) network net1" and
    I2: "\<forall>f \<in> set (g # possible). explorable P bl network d t s f" and
    I3: "\<forall>f \<in> set found. selectable P bl network d t s f"
    by simp_all
  from iterates_blockage_invariant[OF pass_blockage.hyps(1)] have
    sub: "set seed \<subseteq> set found" by auto
  have same: "\<And>f. f \<notin> ?A \<or> \<not> blocked P bl network f \<Longrightarrow>
      select_fid net1 f = select_fid network f"
    using rewritten_select_same[OF I1] by blast
  from I2 have eg: "explorable P bl network d t s g" by simp
  from explorable_untouched[OF eg] seed have "g \<notin> ?A \<or> \<not> blocked P bl network g" by auto
  then have sg: "select_fid net1 g = select_fid network g" by (rule same)
  from pass_blockage.hyps(3)[unfolded st'] obtain c where
    c1: "cur_coord_of net1 d g = Inr c" and
    run: "connect_blockage P bl d t c (potential_fids P net1 (buffer P c t))
            (possible, found, net1) = Inr (possible', found', net2)"
    by (auto simp: explore_blockage_def split: sum.splits)
  from c1 cur_coord_of_select[OF sg] have c: "cur_coord_of network d g = Inr c" by simp
  from connect_blockage_appends[OF run] obtain new where
    n: "found' = found @ new"
       "set new = {f \<in> set (potential_fids P net1 (buffer P c t)).
                     f \<notin> set found \<and> linked P net1 d t c f}"
       "possible' = possible @ filter (\<lambda>f. \<not> blocked P bl net1 f) new"
       "list_all2 (rewritten P bl net1 (set new)) net1 net2"
    by blast
  have fresh: "\<And>f. f \<in> set new \<Longrightarrow>
       f \<notin> set found \<and> select_fid net1 f = select_fid network f
     \<and> f \<in> set (potential_fids P network (buffer P c t)) \<and> linked P network d t c f
     \<and> blocked P bl net1 f = blocked P bl network f"
  proof -
    fix f assume "f \<in> set new"
    with n(2) have p: "f \<in> set (potential_fids P net1 (buffer P c t))"
      and nf: "f \<notin> set found" and l: "linked P net1 d t c f" by auto
    from nf have "f \<notin> ?A \<or> \<not> blocked P bl network f" by simp
    then have s: "select_fid net1 f = select_fid network f" by (rule same)
    from p s have "f \<in> set (potential_fids P network (buffer P c t))"
      by (simp add: potential_fids_select)
    moreover from l linked_select[OF s] have "linked P network d t c f" by simp
    moreover note blocked_select[OF s] nf s
    ultimately show "f \<notin> set found \<and> select_fid net1 f = select_fid network f
     \<and> f \<in> set (potential_fids P network (buffer P c t)) \<and> linked P network d t c f
     \<and> blocked P bl net1 f = blocked P bl network f" by blast
  qed
  have disj: "?A \<inter> set new = {}" using fresh by auto
  have "?A \<union> set new = set found' - set seed"
    using n(1) fresh sub by auto
  with rewritten_trans[OF I1 n(4) disj]
  have 1: "list_all2 (rewritten P bl network (set found' - set seed)) network net2" by simp
  have 2: "\<forall>f \<in> set possible'. explorable P bl network d t s f"
  proof
    fix f assume "f \<in> set possible'"
    with n(3) consider "f \<in> set possible" | "f \<in> set new" "\<not> blocked P bl net1 f" by auto
    then show "explorable P bl network d t s f"
    proof cases
      case 1
      with I2 show ?thesis by simp
    next
      case 2
      with fresh[OF 2(1)] explorable.onward[OF eg c] show ?thesis by blast
    qed
  qed
  have 3: "\<forall>f \<in> set found'. selectable P bl network d t s f"
  proof
    fix f assume "f \<in> set found'"
    with n(1) consider "f \<in> set found" | "f \<in> set new" by auto
    then show "selectable P bl network d t s f"
    proof cases
      case 1
      with I3 show ?thesis by simp
    next
      case 2
      with fresh[OF 2] eg c show ?thesis unfolding selectable_def by blast
    qed
  qed
  from 1 2 3 show ?case unfolding st' by simp
qed

section \<open>An unknown starting identifier\<close>

text \<open>
  Claim C8.  When no row of the network carries the starting identifier, both functions
  return normally: the selection has no rows and the length is 0.  The queue is seeded
  empty, so the loop body never runs, and the blockage-aware function leaves the caller's
  frame as it was.
\<close>

theorem unknown_start_is_empty:
  fixes network :: "'f gdf" and store :: "'f gdf list"
  assumes "starting_fid \<notin> fid ` set (rows network)"
    and "n < length store"
    and "starting_fid \<notin> fid ` set (rows (store ! n))"
  shows "(\<exists>selected. calcWaterCourseLength P starting_fid network direction tolerance
            = Inr (selected, 0) \<and> rows selected = [])
       \<and> (\<exists>selected store'. calcWaterCourseLengthBlockage P starting_fid store n blockage
            direction tolerance = Inr ((selected, 0), store')
            \<and> rows selected = [] \<and> store' ! n = store ! n)"
proof
  show "\<exists>selected. calcWaterCourseLength P starting_fid network direction tolerance
            = Inr (selected, 0) \<and> rows selected = []"
    using assms(1) by (simp add: calcWaterCourseLength_def select_fid_absent)
next
  let ?n = "store ! n"
  show "\<exists>selected store'. calcWaterCourseLengthBlockage P starting_fid store n blockage
            direction tolerance = Inr ((selected, 0), store')
            \<and> rows selected = [] \<and> store' ! n = store ! n"
  proof (cases "crs ?n = ''EPSG:27700''")
    case True
    then show ?thesis
      using assms(2,3)
      by (simp add: calcWaterCourseLengthBlockage_def select_fid_absent Let_def)
  next
    case False
    then show ?thesis
      using assms(2,3)
      by (simp add: calcWaterCourseLengthBlockage_def select_fid_absent Let_def nth_append)
  qed
qed

theorem unknown_start_is_empty_witness:
  "(7::nat) \<notin> fid ` set (rows chain_gdf) \<and> (0::nat) < length [chain_gdf]
   \<and> (\<exists>selected. calcWaterCourseLength vertex_provider 7 chain_gdf 0 (1 / 10)
          = Inr (selected, 0) \<and> rows selected = [])
   \<and> (\<exists>selected store'. calcWaterCourseLengthBlockage vertex_provider 7 [chain_gdf] 0
          no_weirs 0 (1 / 10) = Inr ((selected, 0), store')
          \<and> rows selected = [] \<and> store' ! 0 = [chain_gdf] ! 0)"
proof -
  have a: "(7::nat) \<notin> fid ` set (rows chain_gdf)"
    by (simp add: chain_gdf_def chain_def)
  have b: "(0::nat) < length [chain_gdf]" by simp
  have c: "(7::nat) \<notin> fid ` set (rows ([chain_gdf] ! 0))"
    using a by simp
  from unknown_start_is_empty[OF a b c, where P = vertex_provider and direction = 0
      and tolerance = "1 / 10" and blockage = no_weirs] a b
  show ?thesis by blast
qed

section \<open>The acceptance rule\<close>

text \<open>
  The rounding of a few numbers, and with it the distance the doubles give between the
  origin and the point \<open>(d06, d08)\<close>: it is 1, although the point lies farther than 1
  from the origin.
\<close>

lemma round_double_at:
  assumes "x \<noteq> 0" and "2 powr of_int e \<le> \<bar>x\<bar>" and "\<bar>x\<bar> < 2 powr of_int (e + 1)"
  shows "round_double x
       = of_int (round_even (x / 2 powr of_int (e - 52))) * 2 powr of_int (e - 52)"
proof -
  have pos: "0 < \<bar>x\<bar>" using assms(1) by simp
  have "of_int e \<le> log 2 \<bar>x\<bar>"
    using assms(2) pos by (simp add: le_log_iff)
  moreover have "log 2 \<bar>x\<bar> < of_int e + 1"
    using assms(3) pos by (simp add: log_less_iff)
  ultimately have "\<lfloor>log 2 \<bar>x\<bar>\<rfloor> = e" by (simp add: floor_eq_iff)
  with assms(1) show ?thesis by (simp add: round_double_def)
qed

lemma two_powr_neg: "2 powr (- real n) = 1 / 2 ^ n"
  by (simp add: powr_minus powr_realpow divide_inverse)

lemma round_double_below:
  assumes "x \<noteq> 0" and "1 / 2 ^ n \<le> \<bar>x\<bar>" and "\<bar>x\<bar> < 2 / 2 ^ n"
  shows "round_double x = of_int (round_even (x * 2 ^ (n + 52))) / 2 ^ (n + 52)"
proof -
  have a: "(2::real) powr of_int (- int n) = 1 / 2 ^ n"
    using two_powr_neg[of n] by simp
  have "(2::real) powr of_int (- int n + 1) = 2 powr (1 + - real n)" by (simp add: add.commute)
  also have "\<dots> = 2 * 2 powr (- real n)" by (simp only: powr_add) simp
  finally have b: "(2::real) powr of_int (- int n + 1) = 2 / 2 ^ n"
    by (simp add: two_powr_neg)
  have "(2::real) powr of_int (- int n - 52) = 2 powr (- real (n + 52))" by simp
  then have c: "(2::real) powr of_int (- int n - 52) = 1 / 2 ^ (n + 52)"
    by (simp only: two_powr_neg)
  from round_double_at[of x "- int n"] assms a b
  have "round_double x
       = of_int (round_even (x / 2 powr of_int (- int n - 52))) * 2 powr of_int (- int n - 52)"
    by simp
  then show ?thesis unfolding c by simp
qed

lemma rd_d06: "round_double d06 = d06"
  using round_double_below[of d06 1] by (simp add: d06_def round_even_def)

lemma rd_d08: "round_double d08 = d08"
  using round_double_below[of d08 1] by (simp add: d08_def round_even_def)

lemma rd_sq06: "round_double (d06 * d06) = 3242591731706757 / 2 ^ 53"
  using round_double_below[of "d06 * d06" 2] by (simp add: d06_def round_even_def)

lemma rd_sq08: "round_double (d08 * d08) = 1441151880758559 / 2 ^ 51"
  using round_double_below[of "d08 * d08" 1] by (simp add: d08_def round_even_def)

lemma rd_sum: "round_double (3242591731706757 / 2 ^ 53 + 1441151880758559 / 2 ^ 51) = 1"
  using round_double_below[of "3242591731706757 / 2 ^ 53 + 1441151880758559 / 2 ^ 51" 0]
  by (simp add: round_even_def)

lemma rd_one: "round_double 1 = 1" "round_double (- 1) = - 1"
  using round_double_below[of 1 0] round_double_below[of "-1" 0]
  by (simp_all add: round_even_def)


lemma double_provider_fields:
  "fsub double_provider a b = round_double (a - b)"
  "fadd double_provider a b = round_double (a + b)"
  "fpow2 double_provider a = round_double (a * a)"
  "fsqrt double_provider a = round_double (sqrt a)"
  "intersects double_provider g bx = (\<exists>v \<in> set g. \<exists>lo \<in> set bx. \<exists>hi \<in> set bx.
      fst lo \<le> fst v \<and> fst v \<le> fst hi \<and> snd lo \<le> snd v \<and> snd v \<le> snd hi)"
  by (simp_all add: double_provider_def vertex_provider_def)

lemma euclid_double_06_08: "euclid double_provider (d06, d08) (0, 0) = 1"
proof -
  have 1: "fsub double_provider d06 0 = d06" "fsub double_provider d08 0 = d08"
    by (simp_all add: double_provider_fields rd_d06 rd_d08)
  have 2: "fpow2 double_provider d06 = 3242591731706757 / 2 ^ 53"
    "fpow2 double_provider d08 = 1441151880758559 / 2 ^ 51"
    by (simp_all only: double_provider_fields rd_sq06 rd_sq08)
  have 3: "fadd double_provider (3242591731706757 / 2 ^ 53) (1441151880758559 / 2 ^ 51) = 1"
    by (simp only: double_provider_fields rd_sum)
  have 4: "fsqrt double_provider 1 = 1"
    by (simp add: double_provider_fields rd_one)
  show ?thesis
    unfolding euclid_def fst_conv snd_conv 1 2 3 4 ..
qed

lemma exact_06_08: "1 < sqrt ((d06 - 0)\<^sup>2 + (d08 - 0)\<^sup>2)"
  by (simp add: d06_def d08_def power2_eq_square)

text \<open>
  Claim C5, as the code has it.  In the plain traversal, a candidate returned by the
  proximity query and not yet found is accepted (appended to \<open>found_vertex\<close> and to the
  queue) exactly when the distance of lines 67 and 68, computed in doubles from the
  leading endpoint \<open>cur_coord\<close> and the candidate's far endpoint, is at most
  \<open>tolerance\<close>: a computed distance equal to \<open>tolerance\<close> accepts, any greater computed
  distance discards.
\<close>

theorem connected_iff_within_tolerance:
  assumes "connect P network direction tolerance cur_coord fs (possible, found)
             = Inr (possible', found')"
    and "f \<in> set fs" and "f \<notin> set found" and "f \<notin> set possible"
  shows "\<exists>next_coord. next_coord_of network direction f = Inr next_coord \<and>
           (f \<in> set found' \<longleftrightarrow> euclid P next_coord cur_coord \<le> tolerance) \<and>
           (f \<in> set possible' \<longleftrightarrow> euclid P next_coord cur_coord \<le> tolerance)"
proof -
  from connect_appends[OF assms(1)] obtain new where
    n: "possible' = possible @ new" "found' = found @ new"
       "set new = {f \<in> set fs. f \<notin> set found \<and> linked P network direction tolerance cur_coord f}"
       "\<forall>f \<in> set fs. f \<notin> set found \<longrightarrow> (\<exists>nc. next_coord_of network direction f = Inr nc)"
    by blast
  from n(4) assms(2,3) obtain nc where nc: "next_coord_of network direction f = Inr nc" by blast
  have "f \<in> set new \<longleftrightarrow> euclid P nc cur_coord \<le> tolerance"
    using n(3) assms(2,3) nc by (simp add: linked_def)
  with n(1,2) assms(3,4) nc show ?thesis by simp
qed


text \<open>
  Seen from the point \<open>(1, 0)\<close> with tolerance 1 and direction 1, the far endpoint of
  feature 1 of the chain is at distance exactly 1: it is accepted.
\<close>

theorem connected_iff_within_tolerance_witness:
  "connect vertex_provider chain 1 1 (1, 0) [1, 2, 3] ([], [2]) = Inr ([1, 3], [2, 1, 3])
   \<and> (1::nat) \<in> set [1, 2, 3] \<and> (1::nat) \<notin> set [2] \<and> (1::nat) \<notin> set []
   \<and> (\<exists>next_coord. next_coord_of chain 1 1 = Inr next_coord \<and>
         ((1::nat) \<in> set [2, 1, 3] \<longleftrightarrow> euclid vertex_provider next_coord (1, 0) \<le> 1) \<and>
         ((1::nat) \<in> set [1, 3] \<longleftrightarrow> euclid vertex_provider next_coord (1, 0) \<le> 1))"
proof -
  have run: "connect vertex_provider chain 1 1 (1, 0) [1, 2, 3] ([], [2])
      = Inr ([1, 3], [2, 1, 3])"
    by (simp add: chain_def next_coord_of_def first_coords_def select_fid_def subscript_def
        euclid_same_y)
  have a: "(1::nat) \<in> set [1, 2, 3]" and b: "(1::nat) \<notin> set [2]" and c: "(1::nat) \<notin> set []"
    by simp_all
  from connected_iff_within_tolerance[OF run a b c] run a b c
  show ?thesis by blast
qed


text \<open>
  With tolerance 1, the far endpoint \<open>(d06, d08)\<close> of feature 2 lies farther than 1 from
  the leading endpoint \<open>(0, 0)\<close> of feature 1.  The squares round to 0.36 and
  0.6400000000000001, their sum is halfway between 1 and the next double and rounds to 1,
  so the computed distance is 1 and the pass from feature 1 accepts feature 2.
\<close>

theorem rounded_distance_counterexample:
  "cur_coord_of slanted 0 1 = Inr (0, 0)
   \<and> next_coord_of slanted 0 2 = Inr (d06, d08)
   \<and> 1 < sqrt ((d06 - 0)\<^sup>2 + (d08 - 0)\<^sup>2)
   \<and> euclid double_provider (d06, d08) (0, 0) = 1
   \<and> explore double_provider slanted 0 1 1 ([], [1]) = Inr ([2], [1, 2])"
proof (intro conjI)
  show "cur_coord_of slanted 0 1 = Inr (0, 0)"
    by (simp add: slanted_def cur_coord_of_def first_coords_def select_fid_def subscript_def)
  show "next_coord_of slanted 0 2 = Inr (d06, d08)"
    by (simp add: slanted_def next_coord_of_def first_coords_def select_fid_def subscript_def)
  show "1 < sqrt ((d06 - 0)\<^sup>2 + (d08 - 0)\<^sup>2)" by (rule exact_06_08)
  show "euclid double_provider (d06, d08) (0, 0) = 1" by (rule euclid_double_06_08)
  show "explore double_provider slanted 0 1 1 ([], [1]) = Inr ([2], [1, 2])"
    by (simp add: slanted_def explore_def cur_coord_of_def next_coord_of_def first_coords_def
        select_fid_def subscript_def potential_fids_def buffer_def double_provider_fields
        rd_one euclid_double_06_08)
qed


section \<open>The queue, the found list and termination\<close>

text \<open>
  Claim C4.  Start either loop with the queue and \<open>found_vertex\<close> both equal to \<open>seed\<close>,
  as lines 36 and 37 and lines 97 and 98 do (the seed holds the starting identifier once
  for each row that carries it, and is empty when none does).  In every state reached
  after \<open>n\<close> passes, every identifier of the queue is in \<open>found_vertex\<close>;
  \<open>found_vertex\<close> is the seed followed by identifiers that are pairwise distinct and not
  in the seed, so an identifier is appended at most once; and \<open>n\<close> plus the budget of the
  state is at most the budget of the first state.  A pass of either loop body, from any
  state, leaves \<open>found_vertex\<close> as it was and appends to it: no identifier ever leaves
  it.  The budget of the first state is twice the
  number of identifiers of the network outside the seed plus the length of the seed, so no
  run has more passes than that: the loops terminate on every network.  The functions
  \<open>trace\<close> and \<open>trace_blockage\<close> are total by the same measure, and by \<open>trace_iterates\<close>
  and \<open>trace_blockage_iterates\<close> what they return is the last state of such a run.
\<close>

theorem frontier_within_visited_and_termination:
  fixes network :: "'f feature list" and net :: "'f feature list"
  shows "(iterates P network direction tolerance n (seed, seed) (possible, found) \<longrightarrow>
            set possible \<subseteq> set found
          \<and> (\<exists>new. found = seed @ new \<and> distinct new \<and> set new \<inter> set seed = {})
          \<and> n + budget network (possible, found) \<le> budget network (seed, seed))
       \<and> (iterates_blockage P blockage direction tolerance n (seed, seed, network)
             (possible, found, net) \<longrightarrow>
            set possible \<subseteq> set found
          \<and> (\<exists>new. found = seed @ new \<and> distinct new \<and> set new \<inter> set seed = {})
          \<and> n + budget_blockage (possible, found, net) \<le> budget_blockage (seed, seed, network))
       \<and> (explore P network direction tolerance f (queue, visited) = Inr (queue', visited')
          \<longrightarrow> (\<exists>new. visited' = visited @ new))
       \<and> (explore_blockage P blockage direction tolerance f (queue, visited, network)
            = Inr (queue', visited', net')
          \<longrightarrow> (\<exists>new. visited' = visited @ new))"
proof -
  have 1: "\<exists>new. visited' = visited @ new"
    if "explore P network direction tolerance f (queue, visited) = Inr (queue', visited')"
    using explore_appends[OF that] by blast
  have 2: "\<exists>new. visited' = visited @ new"
    if "explore_blockage P blockage direction tolerance f (queue, visited, network)
          = Inr (queue', visited', net')"
    using explore_blockage_appends[OF that] by blast
  from 1 2 iterates_invariant[of P network direction tolerance n seed "(possible, found)"]
    iterates_blockage_invariant[of P blockage direction tolerance n seed network
      "(possible, found, net)"]
  show ?thesis by simp
qed


text \<open>
  One pass from feature 2 of the chain, and one pass from feature 2 of the river with the
  weir on feature 1.
\<close>

theorem frontier_within_visited_and_termination_witness:
  "iterates vertex_provider chain 0 (1 / 10) (Suc 0) ([2], [2]) ([1], [2, 1])
   \<and> iterates_blockage vertex_provider [(2, 0)] 0 (1 / 10) (Suc 0) ([2], [2], river)
        ([], [2, 1], set_geometry river 1 [(0, 0), (1, 0)])
   \<and> set [1] \<subseteq> set [2, 1::nat]
   \<and> (\<exists>new. [2, 1::nat] = [2] @ new \<and> distinct new \<and> set new \<inter> set [2] = {})
   \<and> Suc 0 + budget chain ([1], [2, 1]) \<le> budget chain ([2], [2])
   \<and> Suc 0 + budget_blockage ([], [2, 1], set_geometry river 1 [(0, 0), (1, 0)])
        \<le> budget_blockage ([2], [2], river)
   \<and> explore vertex_provider chain 0 (1 / 10) 2 ([], [2]) = Inr ([1], [2, 1])
   \<and> explore_blockage vertex_provider [(2, 0)] 0 (1 / 10) 2 ([], [2], river)
       = Inr ([], [2, 1], set_geometry river 1 [(0, 0), (1, 0)])
   \<and> (\<exists>new. [2, 1::nat] = [2] @ new)"
proof -
  have e: "explore vertex_provider chain 0 (1 / 10) 2 ([], [2]) = Inr ([1], [2, 1])"
    by (simp add: eval_defs chain_def)
  have f: "explore_blockage vertex_provider [(2, 0)] 0 (1 / 10) 2 ([], [2], river)
       = Inr ([], [2, 1], set_geometry river 1 [(0, 0), (1, 0)])"
    by (simp add: eval_defs river_def)
  have a: "iterates vertex_provider chain 0 (1 / 10) (Suc 0) ([2], [2]) ([1], [2, 1])"
    by (rule iterates.pass[OF iterates.start e])
  have b: "iterates_blockage vertex_provider [(2, 0)] 0 (1 / 10) (Suc 0) ([2], [2], river)
        ([], [2, 1], set_geometry river 1 [(0, 0), (1, 0)])"
    by (rule iterates_blockage.pass_blockage[OF iterates_blockage.start_blockage f])
  from frontier_within_visited_and_termination[where P = vertex_provider and network = chain
      and direction = 0 and tolerance = "1 / 10" and n = "Suc 0" and seed = "[2]"
      and possible = "[1]" and found = "[2, 1]"] a
  have c: "set [1] \<subseteq> set [2, 1::nat]
     \<and> (\<exists>new. [2, 1::nat] = [2] @ new \<and> distinct new \<and> set new \<inter> set [2] = {})
     \<and> Suc 0 + budget chain ([1], [2, 1]) \<le> budget chain ([2], [2])"
    by blast
  from frontier_within_visited_and_termination[where P = vertex_provider and network = river
      and direction = 0 and tolerance = "1 / 10" and n = "Suc 0" and seed = "[2]"
      and possible = "[]" and found = "[2, 1]" and blockage = "[(2, 0)]"
      and net = "set_geometry river 1 [(0, 0), (1, 0)]"] b
  have d: "Suc 0 + budget_blockage ([], [2, 1], set_geometry river 1 [(0, 0), (1, 0)])
        \<le> budget_blockage ([2], [2], river)"
    by blast
  from frontier_within_visited_and_termination[where P = vertex_provider and network = river
      and direction = 0 and tolerance = "1 / 10" and blockage = "[(2, 0)]" and f = 2
      and queue = "[]" and visited = "[2]" and ?queue' = "[]" and ?visited' = "[2, 1]"
      and ?net' = "set_geometry river 1 [(0, 0), (1, 0)]"] f
  have g: "\<exists>new. [2, 1::nat] = [2] @ new"
    by blast
  from a b c d e f g
  show ?thesis by blast
qed


section \<open>No blockage: the two functions agree\<close>

text \<open>
  With no blockage point nothing is ever blocked, and a loop of the blockage-aware
  traversal is the loop of the plain one with the network passed along unchanged.
\<close>

lemma the_blockage_none [simp]: "the_blockage P [] feat = []"
  by (simp add: the_blockage_def)

lemma connect_blockage_none:
  fixes network :: "'f feature list"
  shows "connect_blockage P [] d t c fs (possible, found, network)
       = map_sum id (\<lambda>(p, fo). (p, fo, network)) (connect P network d t c fs (possible, found))"
proof (induction fs arbitrary: possible found)
  case Nil
  show ?case by simp
next
  case (Cons f fs)
  show ?case
    by (simp add: Cons.IH next_coord_of_def split: sum.splits)
qed

lemma explore_blockage_none:
  fixes network :: "'f feature list"
  shows "explore_blockage P [] d t f (possible, found, network)
       = map_sum id (\<lambda>(p, fo). (p, fo, network)) (explore P network d t f (possible, found))"
  by (simp add: explore_blockage_def explore_def connect_blockage_none split: sum.splits)

lemma trace_blockage_none:
  fixes network :: "'f feature list"
  shows "trace_blockage P [] d t (possible, found, network)
       = map_sum id (\<lambda>fo. (fo, network)) (trace P network d t (possible, found))"
proof (induction P network d t "(possible, found)" arbitrary: possible found rule: trace.induct)
  case (1 P network direction tolerance found_vertex)
  show ?case by simp
next
  case (2 P network direction tolerance f possible_vertex found_vertex)
  show ?case
  proof (cases "explore P network direction tolerance f (possible_vertex, found_vertex)")
    case (Inl e)
    then show ?thesis by (simp add: explore_blockage_none)
  next
    case (Inr st)
    obtain p fo where st: "st = (p, fo)" by (cases st)
    from 2[OF Inr[unfolded st]] Inr st show ?thesis by (simp add: explore_blockage_none)
  qed
qed

text \<open>
  Claim C6.  Called with an empty blockage collection on a network the caller holds at
  reference \<open>n\<close>, the blockage-aware function returns the selection and the total length
  that the plain function returns on that network with the same starting identifier,
  direction and tolerance, and it raises the error the plain one raises.
\<close>

theorem no_blockage_equivalence:
  fixes store :: "'f gdf list"
  assumes "pts blockage = []" and "n < length store"
  shows "map_sum id fst
           (calcWaterCourseLengthBlockage P starting_fid store n blockage direction tolerance)
       = calcWaterCourseLength P starting_fid (store ! n) direction tolerance"
proof -
  have b: "pts (if pcrs blockage \<noteq> ''EPSG:27700'' then points_to_crs P blockage else blockage) = []"
    using assms(1) by (simp add: points_to_crs_def)
  show ?thesis
  proof (cases "crs (store ! n) = ''EPSG:27700''")
    case True
    then show ?thesis
      using assms(2) b
      by (simp add: calcWaterCourseLengthBlockage_def calcWaterCourseLength_def Let_def
          trace_blockage_none split: sum.splits)
  next
    case False
    then show ?thesis
      using assms(2) b
      by (simp add: calcWaterCourseLengthBlockage_def calcWaterCourseLength_def Let_def
          trace_blockage_none nth_append split: sum.splits)
  qed
qed

text \<open>Both select features 2 and 1 of the chain, of total length 2.\<close>

theorem no_blockage_equivalence_witness:
  "pts no_weirs = [] \<and> (0::nat) < length [chain_gdf]
   \<and> map_sum id fst (calcWaterCourseLengthBlockage vertex_provider 2 [chain_gdf] 0 no_weirs 0 (1 / 10))
       = calcWaterCourseLength vertex_provider 2 ([chain_gdf] ! 0) 0 (1 / 10)
   \<and> calcWaterCourseLength vertex_provider 2 ([chain_gdf] ! 0) 0 (1 / 10)
       = Inr (\<lparr>crs = ''EPSG:27700'', rows = take 2 chain\<rparr>, 2)"
proof -
  have a: "pts no_weirs = []" by (simp add: no_weirs_def)
  have b: "(0::nat) < length [chain_gdf]" by simp
  have c: "calcWaterCourseLength vertex_provider 2 ([chain_gdf] ! 0) 0 (1 / 10)
       = Inr (\<lparr>crs = ''EPSG:27700'', rows = take 2 chain\<rparr>, 2)"
    by (simp add: calcWaterCourseLength_def chain_gdf_def chain_def eval_defs)
  from no_blockage_equivalence[OF a b, of vertex_provider 2 0 "1 / 10"] a b c
  show ?thesis by blast
qed


section \<open>Truncation at a blockage\<close>

text \<open>
  \<open>py_min\<close> returns a least element, \<open>index\<close> the first position of a value, so
  \<open>line_til_weir\<close>, when it returns, returns the vertices before the first vertex at
  least distance from the blockage point.
\<close>

lemma py_min_least:
  assumes "py_min xs = Inr m"
  shows "m \<in> set xs \<and> (\<forall>x \<in> set xs. m \<le> x)"
proof -
  from assms obtain x ys where xs: "xs = x # ys" and m: "m = fold min ys x"
    by (auto simp: py_min_def split: list.splits)
  have "m = Min (set xs)" unfolding xs m by (rule Min.set_eq_fold[symmetric])
  moreover have "finite (set xs)" "set xs \<noteq> {}" using xs by simp_all
  ultimately show ?thesis by (auto intro: Min_in Min_le)
qed

lemma index_first:
  assumes "index xs v = Inr i"
  shows "i < length xs \<and> xs ! i = v \<and> (\<forall>j < i. xs ! j \<noteq> v)"
  using assms
proof (induction xs arbitrary: i)
  case Nil
  then show ?case by simp
next
  case (Cons x xs)
  show ?case
  proof (cases "x = v")
    case True
    with Cons.prems show ?thesis by simp
  next
    case False
    with Cons.prems obtain k where k: "index xs v = Inr k" and i: "i = Suc k"
      by (auto split: sum.splits)
    from Cons.IH[OF k] have "k < length xs" "xs ! k = v" "\<forall>j < k. xs ! j \<noteq> v" by auto
    with False i show ?thesis by (auto simp: nth_Cons split: nat.splits)
  qed
qed

lemma line_til_weir_prefix:
  assumes "line_til_weir P coords b = Inr line"
  shows "\<exists>i < length coords.
           (\<forall>j < length coords. euclid P (coords ! i) b \<le> euclid P (coords ! j) b)
         \<and> (\<forall>j < i. euclid P (coords ! i) b < euclid P (coords ! j) b)
         \<and> line = take i coords"
proof -
  let ?dists = "map (\<lambda>coord. euclid P coord b) coords"
  from assms obtain m i where
    m: "py_min ?dists = Inr m" and i: "index ?dists m = Inr i" and l: "LineString (take i coords) = Inr line"
    by (auto simp: line_til_weir_def Let_def split: sum.splits)
  from py_min_least[OF m] have low: "\<forall>x \<in> set ?dists. m \<le> x" by simp
  from index_first[OF i] have
    il: "i < length coords" and im: "euclid P (coords ! i) b = m"
    and first: "\<forall>j < i. ?dists ! j \<noteq> m" by auto
  have 1: "\<forall>j < length coords. euclid P (coords ! i) b \<le> euclid P (coords ! j) b"
  proof (intro allI impI)
    fix j assume "j < length coords"
    then have "euclid P (coords ! j) b \<in> set ?dists" by auto
    with low im show "euclid P (coords ! i) b \<le> euclid P (coords ! j) b" by blast
  qed
  have 2: "\<forall>j < i. euclid P (coords ! i) b < euclid P (coords ! j) b"
  proof (intro allI impI)
    fix j assume j: "j < i"
    with il have jl: "j < length coords" by simp
    from first j have "?dists ! j \<noteq> m" by blast
    with jl have "euclid P (coords ! j) b \<noteq> m" by simp
    moreover from 1 jl im have "m \<le> euclid P (coords ! j) b" by auto
    ultimately show "euclid P (coords ! i) b < euclid P (coords ! j) b" using im by simp
  qed
  from l have "line = take i coords" by (simp add: LineString_def split: if_splits)
  with il 1 2 show ?thesis by blast
qed

lemma rewritten_select_fid:
  fixes network :: "'f feature list"
  assumes "list_all2 (rewritten P bl network A) xs ys"
    and "f \<in> A" and "first_coords (select_fid network f) = Inr coords"
    and "the_blockage P bl (select_fid network f) = b # bs"
  shows "select_fid xs f = [] \<and> select_fid ys f = [] \<or>
         (\<exists>line. line_til_weir P coords b = Inr line
            \<and> select_fid ys f = map (\<lambda>r. r\<lparr>geometry := line\<rparr>) (select_fid xs f))"
  using assms(1)
proof (induction rule: list_all2_induct)
  case Nil
  show ?case by (simp add: select_fid_def)
next
  case (Cons r xs r' ys)
  have isb: "blocked P bl network f" using assms(4) by (simp add: blocked_def)
  show ?case
  proof (cases "fid r = f")
    case True
    with Cons.hyps(1) assms(2,3,4) isb obtain line where
      ln: "line_til_weir P coords b = Inr line" and r': "r' = r\<lparr>geometry := line\<rparr>"
      by (auto simp: rewritten_def)
    from Cons.IH ln have "select_fid ys f = map (\<lambda>r. r\<lparr>geometry := line\<rparr>) (select_fid xs f)"
      by (auto simp: select_fid_def)
    with True r' ln show ?thesis by (simp add: select_fid_def)
  next
    case False
    moreover from Cons.hyps(1) have "fid r' = fid r"
      by (auto simp: rewritten_def split: if_splits)
    ultimately show ?thesis using Cons.IH by (simp add: select_fid_def)
  qed
qed

text \<open>
  What a pass of the \<^verbatim>\<open>for\<close> loop that completes has done to a candidate \<open>f\<close>, not
  yet found, that is linked and for which \<^verbatim>\<open>the_blockage\<close> is not empty.  Let \<open>coords\<close>
  be the candidate's vertex list and \<open>b\<close> the first blockage point selected.  There is a
  position \<open>i\<close> of \<open>coords\<close> whose vertex has the least computed distance to \<open>b\<close> among
  all vertices and a strictly smaller one than every vertex before it, and after the pass
  the rows of \<open>f\<close> are the rows it had with their geometry replaced by the vertices
  before position \<open>i\<close>.
\<close>

lemma completed_pass_truncates:
  fixes network :: "'f feature list"
  assumes "connect_blockage P blockage direction tolerance cur_coord fs
             (possible, found, network) = Inr (possible', found', network')"
    and "f \<in> set fs" and "f \<notin> set found"
    and "linked P network direction tolerance cur_coord f"
    and "first_coords (select_fid network f) = Inr coords"
    and "the_blockage P blockage (select_fid network f) = b # bs"
  shows "\<exists>i < length coords.
           (\<forall>j < length coords. euclid P (coords ! i) b \<le> euclid P (coords ! j) b)
         \<and> (\<forall>j < i. euclid P (coords ! i) b < euclid P (coords ! j) b)
         \<and> select_fid network' f
             = map (\<lambda>r. r\<lparr>geometry := take i coords\<rparr>) (select_fid network f)"
proof -
  from connect_blockage_appends[OF assms(1)] obtain new where
    n: "set new = {f \<in> set fs. f \<notin> set found \<and> linked P network direction tolerance cur_coord f}"
       "list_all2 (rewritten P blockage network (set new)) network network'"
    by blast
  have fin: "f \<in> set new" using n(1) assms(2,3,4) by simp
  have ne: "select_fid network f \<noteq> []"
    using assms(5) by (auto simp: first_coords_def)
  from rewritten_select_fid[OF n(2) fin assms(5,6)] ne obtain line where
    ln: "line_til_weir P coords b = Inr line"
    and sel: "select_fid network' f = map (\<lambda>r. r\<lparr>geometry := line\<rparr>) (select_fid network f)"
    by blast
  from line_til_weir_prefix[OF ln] sel show ?thesis by blast
qed

text \<open>
  Claim C1.  The claim is that the stored geometry of every linked candidate with a
  blockage point in its buffer is replaced by the vertices before its vertex nearest to
  the blockage point.  The code does so whenever it gets to the write of line 146, as
  the lemma above says.  It does not get there when the nearest vertex is the second
  one: on the chain with the weir at \<open>(3 / 4, 0)\<close>, feature 1 is a candidate of the
  query around the leading endpoint \<open>(1, 0)\<close> of feature 2, it is not yet found, it is
  linked, the weir is selected for it, and its vertices are at distances \<open>3 / 4\<close> and
  \<open>1 / 4\<close> from the weir.  The prefix has one vertex, \<^verbatim>\<open>LineString\<close> raises on
  line 145, and the pass ends with that error: no geometry is replaced.  On the river,
  where the weir lies on the third vertex of feature 1, the same pass replaces the
  geometry by the first two vertices.
\<close>

theorem nearest_second_vertex_not_replaced:
  "potential_fids vertex_provider chain (buffer vertex_provider (1, 0) (1 / 10)) = [1, 2]
   \<and> (1::nat) \<notin> set [2]
   \<and> linked vertex_provider chain 0 (1 / 10) (1, 0) 1
   \<and> the_blockage vertex_provider [(3 / 4, 0)] (select_fid chain 1) = [(3 / 4, 0)]
   \<and> first_coords (select_fid chain 1) = Inr [(0, 0), (1, 0)]
   \<and> map (\<lambda>coord. euclid vertex_provider coord (3 / 4, 0)) [(0, 0), (1, 0)] = [3 / 4, 1 / 4]
   \<and> connect_blockage vertex_provider [(3 / 4, 0)] 0 (1 / 10) (1, 0) [1, 2] ([], [2], chain)
       = Inl ValueError
   \<and> connect_blockage vertex_provider [(2, 0)] 0 (1 / 10) (3, 0) [1, 2] ([], [2], river)
       = Inr ([], [2, 1], set_geometry river 1 [(0, 0), (1, 0)])"
proof (intro conjI)
  show "potential_fids vertex_provider chain (buffer vertex_provider (1, 0) (1 / 10)) = [1, 2]"
    by (simp add: eval_defs chain_def)
  show "(1::nat) \<notin> set [2]" by simp
  show "linked vertex_provider chain 0 (1 / 10) (1, 0) 1"
    by (simp add: linked_def eval_defs chain_def)
  show "the_blockage vertex_provider [(3 / 4, 0)] (select_fid chain 1) = [(3 / 4, 0)]"
    by (simp add: eval_defs chain_def)
  show "first_coords (select_fid chain 1) = Inr [(0, 0), (1, 0)]"
    by (simp add: eval_defs chain_def)
  show "map (\<lambda>coord. euclid vertex_provider coord (3 / 4, 0)) [(0, 0), (1, 0)]
      = [3 / 4, 1 / 4]"
    by (simp add: euclid_same_y)
  show "connect_blockage vertex_provider [(3 / 4, 0)] 0 (1 / 10) (1, 0) [1, 2] ([], [2], chain)
       = Inl ValueError"
    by (simp add: eval_defs chain_def)
  show "connect_blockage vertex_provider [(2, 0)] 0 (1 / 10) (3, 0) [1, 2] ([], [2], river)
       = Inr ([], [2, 1], set_geometry river 1 [(0, 0), (1, 0)])"
    by (simp add: eval_defs river_def)
qed

section \<open>Short prefixes\<close>

text \<open>
  Claim C3.  The claim is that the truncation succeeds when the vertex nearest to the
  blockage point has index 0 or 1.  Index 0 does: the prefix is empty, the empty line
  string is stored and adds 0 to the total length (third and fourth conjunct, the weir
  near the first vertex of feature 1).  Index 1 does not: the prefix has one vertex,
  \<^verbatim>\<open>LineString\<close> raises, and the whole call ends with that error (first and second
  conjunct, the weir near the second vertex of feature 1).
\<close>

theorem single_vertex_prefix_raises:
  "line_til_weir vertex_provider [(0, 0), (1, 0)] (3 / 4, 0) = Inl ValueError
   \<and> calcWaterCourseLengthBlockage vertex_provider 2 [chain_gdf] 0 weir_near_junction 0 (1 / 10)
       = Inl ValueError
   \<and> line_til_weir vertex_provider [(0, 0), (1, 0)] (1 / 4, 0) = Inr []
   \<and> calcWaterCourseLengthBlockage vertex_provider 2 [chain_gdf] 0 weir_near_source 0 (1 / 10)
       = Inr ((\<lparr>crs = ''EPSG:27700'',
                rows = [\<lparr>fid = 1, geometry = []\<rparr>, \<lparr>fid = 2, geometry = [(1, 0), (2, 0)]\<rparr>]\<rparr>, 1),
              [\<lparr>crs = ''EPSG:27700'', rows = set_geometry chain 1 []\<rparr>])"
proof (intro conjI)
  show "line_til_weir vertex_provider [(0, 0), (1, 0)] (3 / 4, 0) = Inl ValueError"
    by (simp add: eval_defs)
  show "calcWaterCourseLengthBlockage vertex_provider 2 [chain_gdf] 0 weir_near_junction 0 (1 / 10)
       = Inl ValueError"
    by (simp add: calcWaterCourseLengthBlockage_def chain_gdf_def chain_def
        weir_near_junction_def eval_defs)
  show "line_til_weir vertex_provider [(0, 0), (1, 0)] (1 / 4, 0) = Inr []"
    by (simp add: eval_defs)
  show "calcWaterCourseLengthBlockage vertex_provider 2 [chain_gdf] 0 weir_near_source 0 (1 / 10)
       = Inr ((\<lparr>crs = ''EPSG:27700'',
                rows = [\<lparr>fid = 1, geometry = []\<rparr>, \<lparr>fid = 2, geometry = [(1, 0), (2, 0)]\<rparr>]\<rparr>, 1),
              [\<lparr>crs = ''EPSG:27700'', rows = set_geometry chain 1 []\<rparr>])"
    by (simp add: calcWaterCourseLengthBlockage_def chain_gdf_def chain_def
        weir_near_source_def eval_defs)
qed

section \<open>Geometries with fewer than two vertices\<close>

text \<open>
  A network whose starting feature has no vertex: both functions raise at
  \<^verbatim>\<open>coords[0 - direction]\<close>.  The program itself produces such networks: the call
  with the weir near the first vertex of feature 1, above, leaves feature 1 with the empty
  line string in the caller's frame.
\<close>

theorem empty_start_geometry_counterexample:
  "calcWaterCourseLength vertex_provider 1 hollow_gdf 0 (1 / 10) = Inl IndexError
   \<and> calcWaterCourseLengthBlockage vertex_provider 1 [hollow_gdf] 0 no_weirs 0 (1 / 10)
       = Inl IndexError"
  by (simp add: calcWaterCourseLength_def calcWaterCourseLengthBlockage_def hollow_gdf_def
      no_weirs_def eval_defs)

lemma next_coord_of_error: "next_coord_of network direction f = Inl e \<Longrightarrow> e = IndexError"
  by (auto simp: next_coord_of_def first_coords_def subscript_def split: sum.splits list.splits if_splits)

lemma connect_error:
  assumes "connect P network direction tolerance c fs (possible, found) = Inl e"
  shows "e = IndexError"
  using assms
proof (induction fs arbitrary: possible found)
  case Nil
  then show ?case by simp
next
  case (Cons f fs)
  then show ?case
    by (auto split: if_splits sum.splits dest: next_coord_of_error)
qed

lemma connect_blockage_readable:
  fixes network :: "'f feature list"
  assumes "connect_blockage P bl d t c fs (possible, found, network) = Inr st'"
    and "f \<in> set fs" and "f \<notin> set found"
  shows "\<exists>coords nc. first_coords (select_fid network f) = Inr coords
           \<and> subscript coords (d - 1) = Inr nc"
  using assms
proof (induction fs arbitrary: possible found network)
  case Nil
  then show ?case by simp
next
  case (Cons g fs)
  show ?case
  proof (cases "g \<in> set found")
    case True
    with Cons.prems have "connect_blockage P bl d t c fs (possible, found, network) = Inr st'"
      and "f \<in> set fs" by auto
    from Cons.IH[OF this Cons.prems(3)] show ?thesis .
  next
    case False
    from Cons.prems(1) False obtain coords nc where
      co: "first_coords (select_fid network g) = Inr coords" and
      nc: "subscript coords (d - 1) = Inr nc"
      by (auto split: sum.splits)
    show ?thesis
    proof (cases "f = g")
      case True
      with co nc show ?thesis by blast
    next
      case fg: False
      with Cons.prems(2) have fin: "f \<in> set fs" by simp
      from fg Cons.prems(3) have nf: "f \<notin> set (found @ [g])" by simp
      from Cons.prems(1) False co nc consider
        (skip) "connect_blockage P bl d t c fs (possible, found, network) = Inr st'"
        | (accept) "connect_blockage P bl d t c fs (possible @ [g], found @ [g], network) = Inr st'"
        | (cut) line where "connect_blockage P bl d t c fs
             (possible, found @ [g], set_geometry network g line) = Inr st'"
        by (auto split: if_splits list.splits sum.splits)
      then show ?thesis
      proof cases
        case skip
        from Cons.IH[OF skip fin Cons.prems(3)] show ?thesis .
      next
        case accept
        from Cons.IH[OF accept fin nf] show ?thesis .
      next
        case cut
        from Cons.IH[OF cut fin nf] fg show ?thesis
          by (simp add: select_fid_set_geometry)
      qed
    qed
  qed
qed

lemma first_coords_to_crs:
  fixes network :: "'f gdf"
  assumes "first_coords (select_fid (rows network) s) = Inr []"
  shows "first_coords (select_fid (rows (to_crs P network)) s) = Inr []"
proof -
  have "select_fid (rows (to_crs P network)) s
      = map (\<lambda>r. r\<lparr>geometry := map (transform P (crs network)) (geometry r)\<rparr>)
          (select_fid (rows network) s)"
    by (simp add: to_crs_def select_fid_def filter_map comp_def)
  with assms show ?thesis
    by (auto simp: first_coords_def split: list.splits)
qed

lemma empty_start_seed:
  fixes network :: "'f feature list"
  assumes "first_coords (select_fid network s) = Inr []"
  shows "\<exists>rest. map fid (select_fid network s) = s # rest"
proof -
  from assms obtain r rs where sel: "select_fid network s = r # rs"
    by (auto simp: first_coords_def split: list.splits)
  then have "r \<in> set (select_fid network s)" by simp
  then have "fid r = s" by (simp add: select_fid_def)
  with sel show ?thesis by simp
qed

lemma subscript_Nil [simp]: "subscript [] i = Inl IndexError"
  by (simp add: subscript_def)

lemma empty_start_raises:
  fixes network :: "'f feature list"
  assumes "first_coords (select_fid network s) = Inr []"
  shows "trace P network d t (map fid (select_fid network s), found) = Inl IndexError"
    and "trace_blockage P bl d t (map fid (select_fid network s), found, network) = Inl IndexError"
proof -
  from empty_start_seed[OF assms] obtain rest where
    seed: "map fid (select_fid network s) = s # rest" ..
  show "trace P network d t (map fid (select_fid network s), found) = Inl IndexError"
    unfolding seed using assms by (simp add: explore_def cur_coord_of_def)
  show "trace_blockage P bl d t (map fid (select_fid network s), found, network) = Inl IndexError"
    unfolding seed using assms by (simp add: explore_blockage_def cur_coord_of_def)
qed

text \<open>
  Claim C9, as the code has it.  A geometry with fewer than two vertices has length 0, so
  it adds nothing to the total length.  Nothing guards the endpoint reads: when the
  starting feature has no vertex both functions raise \<^verbatim>\<open>IndexError\<close>, and when the
  proximity query returns a candidate, not yet found, that has no vertex, the \<^verbatim>\<open>for\<close>
  loop of either traversal raises.  Whether such a feature takes part in proximity
  matching is decided by \<open>intersects\<close>, which belongs to the geometry library.
\<close>

theorem degenerate_geometry:
  fixes network :: "'f gdf" and store :: "'f gdf list" and net :: "'f feature list"
  shows "(length g < 2 \<longrightarrow> line_length P g = 0)
       \<and> (first_coords (select_fid (rows network) s) = Inr [] \<longrightarrow>
            calcWaterCourseLength P s network d t = Inl IndexError)
       \<and> (n < length store \<and> first_coords (select_fid (rows (store ! n)) s) = Inr [] \<longrightarrow>
            calcWaterCourseLengthBlockage P s store n blockage d t = Inl IndexError)
       \<and> (f \<in> set fs \<and> f \<notin> set found \<and> first_coords (select_fid net f) = Inr [] \<longrightarrow>
            connect P net d t c fs (possible, found) = Inl IndexError
          \<and> (\<exists>e. connect_blockage P bl d t c fs (possible, found, net) = Inl e))"
proof (intro conjI impI)
  assume "length g < 2"
  then show "line_length P g = 0"
    by (cases "(P, g)" rule: line_length.cases) simp_all
next
  assume a: "first_coords (select_fid (rows network) s) = Inr []"
  show "calcWaterCourseLength P s network d t = Inl IndexError"
  proof (cases "crs network = ''EPSG:27700''")
    case True
    with empty_start_raises(1)[OF a] show ?thesis
      by (simp add: calcWaterCourseLength_def)
  next
    case False
    with empty_start_raises(1)[OF first_coords_to_crs[OF a]] show ?thesis
      by (simp add: calcWaterCourseLength_def)
  qed
next
  assume "n < length store \<and> first_coords (select_fid (rows (store ! n)) s) = Inr []"
  then have n: "n < length store" and a: "first_coords (select_fid (rows (store ! n)) s) = Inr []"
    by simp_all
  show "calcWaterCourseLengthBlockage P s store n blockage d t = Inl IndexError"
  proof (cases "crs (store ! n) = ''EPSG:27700''")
    case True
    with empty_start_raises(2)[OF a] show ?thesis
      by (simp add: calcWaterCourseLengthBlockage_def)
  next
    case False
    with empty_start_raises(2)[OF first_coords_to_crs[OF a]] show ?thesis
      by (simp add: calcWaterCourseLengthBlockage_def)
  qed
next
  assume h: "f \<in> set fs \<and> f \<notin> set found \<and> first_coords (select_fid net f) = Inr []"
  then have nx: "next_coord_of net d f = Inl IndexError"
    by (simp add: next_coord_of_def)
  show "connect P net d t c fs (possible, found) = Inl IndexError"
  proof (cases "connect P net d t c fs (possible, found)")
    case (Inl e)
    with connect_error[OF Inl] show ?thesis by simp
  next
    case (Inr st)
    obtain p' fo' where "st = (p', fo')" by (cases st)
    with connect_appends[OF Inr[unfolded this]] h nx show ?thesis by auto
  qed
next
  assume h: "f \<in> set fs \<and> f \<notin> set found \<and> first_coords (select_fid net f) = Inr []"
  show "\<exists>e. connect_blockage P bl d t c fs (possible, found, net) = Inl e"
  proof (cases "connect_blockage P bl d t c fs (possible, found, net)")
    case (Inl e)
    then show ?thesis by blast
  next
    case (Inr st)
    from h have "f \<in> set fs" "f \<notin> set found" by simp_all
    from connect_blockage_readable[OF Inr this] h show ?thesis by auto
  qed
qed


theorem degenerate_geometry_witness:
  "length ([] :: point list) < 2 \<and> line_length vertex_provider [] = 0
   \<and> first_coords (select_fid (rows hollow_gdf) 1) = Inr []
   \<and> calcWaterCourseLength vertex_provider 1 hollow_gdf 0 (1 / 10) = Inl IndexError
   \<and> (0::nat) < length [hollow_gdf]
   \<and> calcWaterCourseLengthBlockage vertex_provider 1 [hollow_gdf] 0 no_weirs 0 (1 / 10)
       = Inl IndexError
   \<and> (1::nat) \<in> set [1] \<and> (1::nat) \<notin> set []
   \<and> connect vertex_provider (rows hollow_gdf) 0 (1 / 10) (0, 0) [1] ([], []) = Inl IndexError
   \<and> (\<exists>e. connect_blockage vertex_provider [] 0 (1 / 10) (0, 0) [1] ([], [], rows hollow_gdf)
          = Inl e)"
proof -
  have a: "length ([] :: point list) < 2" by simp
  have b: "first_coords (select_fid (rows hollow_gdf) 1) = Inr []"
    by (simp add: hollow_gdf_def eval_defs)
  have c: "(0::nat) < length [hollow_gdf]" by simp
  have b': "first_coords (select_fid (rows ([hollow_gdf] ! 0)) 1) = Inr []"
    using b by simp
  have d: "(1::nat) \<in> set [1]" and e: "(1::nat) \<notin> set []" by simp_all
  from degenerate_geometry[where g = "[]" and network = hollow_gdf and s = 1
      and P = vertex_provider and d = 0 and t = "1 / 10" and n = 0 and store = "[hollow_gdf]"
      and blockage = no_weirs and f = 1 and fs = "[1]" and found = "[]"
      and net = "rows hollow_gdf" and c = "(0, 0)" and possible = "[]" and bl = "[]"]
    a b b' c d e
  show ?thesis by simp
qed


section \<open>What a call leaves in the store\<close>

text \<open>A call that returns has run the loop on the working frame, from the seed.\<close>

lemma calcWaterCourseLengthBlockage_returns:
  fixes store :: "'f gdf list"
  assumes "calcWaterCourseLengthBlockage P s store n blockage d t = Inr ((selected, len), store')"
    and "n < length store"
  shows "\<exists>found written.
           trace_blockage P (pts (reprojected_points P blockage)) d t
             (map fid (select_fid (rows (reprojected P (store ! n))) s),
              map fid (select_fid (rows (reprojected P (store ! n))) s),
              rows (reprojected P (store ! n))) = Inr (found, written)
         \<and> selected = (reprojected P (store ! n))\<lparr>rows := isin written found\<rparr>
         \<and> len = total_length P (isin written found)
         \<and> store' = (if crs (store ! n) \<noteq> ''EPSG:27700''
                      then store @ [(to_crs P (store ! n))\<lparr>rows := written\<rparr>]
                      else store[n := (store ! n)\<lparr>rows := written\<rparr>])"
proof (cases "crs (store ! n) = ''EPSG:27700''")
  case True
  with assms show ?thesis
    by (auto simp: calcWaterCourseLengthBlockage_def reprojected_def reprojected_points_def
        Let_def split: sum.splits)
next
  case False
  with assms show ?thesis
    by (auto simp: calcWaterCourseLengthBlockage_def reprojected_def reprojected_points_def
        Let_def nth_append split: sum.splits)
qed

lemma explorable_present:
  fixes network :: "'f feature list"
  assumes "explorable P bl network d t s f"
  shows "f \<in> fid ` set network"
  using assms
proof (cases rule: explorable.cases)
  case origin
  then show ?thesis by simp
next
  case (onward g c)
  from onward(3) potential_fids_subset[of P network "buffer P c t"] show ?thesis by auto
qed

lemma selectable_present:
  fixes network :: "'f feature list"
  assumes "selectable P bl network d t s f"
  shows "f \<in> fid ` set network"
proof -
  from assms consider "explorable P bl network d t s f"
    | c where "f \<in> set (potential_fids P network (buffer P c t))"
    unfolding selectable_def by blast
  then show ?thesis
  proof cases
    case 1
    then show ?thesis by (rule explorable_present)
  next
    case 2
    with potential_fids_subset[of P network "buffer P c t"] show ?thesis by auto
  qed
qed

lemma rewritten_fids:
  fixes network :: "'f feature list"
  assumes "list_all2 (rewritten P bl network A) xs ys"
  shows "map fid ys = map fid xs"
  using assms by (induction rule: list_all2_induct) (auto dest: rewritten_fid)

lemma fid_image_isin:
  fixes network :: "'f feature list"
  assumes "set found \<subseteq> fid ` set network"
  shows "fid ` set (isin network found) = set found"
  using assms by (auto simp: isin_def)


text \<open>What the loop of the blockage-aware traversal returns, from the seed.\<close>

lemma trace_blockage_result:
  fixes network :: "'f feature list"
  assumes "trace_blockage P bl d t (seed, seed, network) = Inr (found, written)"
    and "seed = map fid (select_fid network s)"
  shows "list_all2 (rewritten P bl network (set found - {s})) network written"
    and "\<forall>f \<in> set found. selectable P bl network d t s f"
    and "set seed \<subseteq> set found"
    and "set found \<subseteq> fid ` set written"
proof -
  from trace_blockage_iterates[OF assms(1)] obtain n where
    it: "iterates_blockage P bl d t n (seed, seed, network) ([], found, written)" ..
  from iterates_blockage_frame[OF it assms(2)] have
    fr: "list_all2 (rewritten P bl network (set found - set seed)) network written"
    and sel: "\<forall>f \<in> set found. selectable P bl network d t s f" by simp_all
  from iterates_blockage_invariant[OF it] obtain new where "found = seed @ new"
    by (simp only: fst_conv snd_conv) blast
  then show sub: "set seed \<subseteq> set found" by simp
  from sel show "\<forall>f \<in> set found. selectable P bl network d t s f" .
  have "set seed \<subseteq> {s}" unfolding assms(2) by (rule seed_only_start)
  from subset_singletonD[OF this] consider "set seed = {}" | "set seed = {s}" by blast
  then show "list_all2 (rewritten P bl network (set found - {s})) network written"
  proof cases
    case 1
    then have "seed = []" by simp
    with assms(1) have "found = []" "written = network" by simp_all
    then show ?thesis by (simp add: rewritten_refl)
  next
    case 2
    with fr show ?thesis by simp
  qed
  have "fid ` set written = set (map fid written)" by simp
  also have "\<dots> = set (map fid network)" using rewritten_fids[OF fr] by simp
  finally have eq: "fid ` set written = fid ` set network" by simp
  show "set found \<subseteq> fid ` set written"
  proof
    fix f assume "f \<in> set found"
    with sel have "selectable P bl network d t s f" by blast
    then have "f \<in> fid ` set network" by (rule selectable_present)
    then show "f \<in> fid ` set written" by (simp only: eq)
  qed
qed

text \<open>
  Claim C7, as the code has it.  A call that returns leaves every other frame of the
  store as it was.  When the caller's network is in \<^verbatim>\<open>EPSG:27700\<close>, the call writes to
  the caller's frame: afterwards that frame has the same reference system and the same
  rows in the same order, except that the rows of the blocked identifiers of the selection
  other than the starting one carry the truncated line as geometry, and the selection is
  made of rows of that frame.  When the caller's network is in another reference system,
  line 93 rebinds \<open>network\<close> to a reprojected copy, the writes go to the copy, and the
  caller's frame is left as it was.
\<close>

theorem only_blocked_geometry_overwritten:
  fixes store :: "'f gdf list"
  assumes "calcWaterCourseLengthBlockage P s store n blockage d t = Inr ((selected, len), store')"
    and "n < length store"
  shows "(\<forall>m < length store. m \<noteq> n \<longrightarrow> store' ! m = store ! m)
       \<and> (crs (store ! n) = ''EPSG:27700'' \<longrightarrow>
            length store' = length store
          \<and> crs (store' ! n) = crs (store ! n)
          \<and> list_all2 (rewritten P (pts (reprojected_points P blockage)) (rows (store ! n))
                         (fid ` set (rows selected) - {s}))
               (rows (store ! n)) (rows (store' ! n))
          \<and> rows selected = filter (\<lambda>r. fid r \<in> fid ` set (rows selected)) (rows (store' ! n)))
       \<and> (crs (store ! n) \<noteq> ''EPSG:27700'' \<longrightarrow> store' ! n = store ! n)"
proof -
  let ?net = "rows (reprojected P (store ! n))"
  let ?bl = "pts (reprojected_points P blockage)"
  let ?seed = "map fid (select_fid ?net s)"
  from calcWaterCourseLengthBlockage_returns[OF assms] obtain found written where
    tr: "trace_blockage P ?bl d t (?seed, ?seed, ?net) = Inr (found, written)"
    and sel: "selected = (reprojected P (store ! n))\<lparr>rows := isin written found\<rparr>"
    and st: "store' = (if crs (store ! n) \<noteq> ''EPSG:27700''
                      then store @ [(to_crs P (store ! n))\<lparr>rows := written\<rparr>]
                      else store[n := (store ! n)\<lparr>rows := written\<rparr>])"
    by blast
  from trace_blockage_result[OF tr refl] have
    fr: "list_all2 (rewritten P ?bl ?net (set found - {s})) ?net written"
    and sub: "set found \<subseteq> fid ` set written" by simp_all
  have fs: "fid ` set (rows selected) = set found"
    using fid_image_isin[OF sub] sel by simp
  have 1: "\<forall>m < length store. m \<noteq> n \<longrightarrow> store' ! m = store ! m"
    using st by (simp add: nth_append)
  have 2: "crs (store ! n) \<noteq> ''EPSG:27700'' \<longrightarrow> store' ! n = store ! n"
    using st assms(2) by (simp add: nth_append)
  have 3: "crs (store ! n) = ''EPSG:27700'' \<longrightarrow>
            length store' = length store
          \<and> crs (store' ! n) = crs (store ! n)
          \<and> list_all2 (rewritten P ?bl (rows (store ! n)) (fid ` set (rows selected) - {s}))
               (rows (store ! n)) (rows (store' ! n))
          \<and> rows selected = filter (\<lambda>r. fid r \<in> fid ` set (rows selected)) (rows (store' ! n))"
  proof
    assume e: "crs (store ! n) = ''EPSG:27700''"
    then have net: "?net = rows (store ! n)" by (simp add: reprojected_def)
    from e st assms(2) have s': "store' ! n = (store ! n)\<lparr>rows := written\<rparr>"
      and l: "length store' = length store" by simp_all
    from fr show "length store' = length store
          \<and> crs (store' ! n) = crs (store ! n)
          \<and> list_all2 (rewritten P ?bl (rows (store ! n)) (fid ` set (rows selected) - {s}))
               (rows (store ! n)) (rows (store' ! n))
          \<and> rows selected = filter (\<lambda>r. fid r \<in> fid ` set (rows selected)) (rows (store' ! n))"
      unfolding fs net s' using l sel by (simp add: isin_def)
  qed
  from 1 2 3 show ?thesis by blast
qed



text \<open>
  The river and the weir declared in \<^verbatim>\<open>EPSG:4326\<close>: both are reprojected, feature 1 is
  truncated in the selection and in the reprojected copy, and the caller's frame, at
  reference 0, still has the four vertices of feature 1.
\<close>

theorem reprojected_copy_counterexample:
  "calcWaterCourseLengthBlockage shift_provider 2 [river_wgs] 0 weir_wgs 0 (1 / 10)
     = Inr ((\<lparr>crs = ''EPSG:27700'',
              rows = [\<lparr>fid = 1, geometry = [(0, 0), (1, 0)]\<rparr>,
                      \<lparr>fid = 2, geometry = [(3, 0), (4, 0)]\<rparr>]\<rparr>, 2),
            [river_wgs,
             \<lparr>crs = ''EPSG:27700'', rows = set_geometry river 1 [(0, 0), (1, 0)]\<rparr>])
   \<and> select_fid (rows river_wgs) 1
     = [\<lparr>fid = 1, geometry = [(- 1, 0), (0, 0), (1, 0), (2, 0)]\<rparr>]"
  by (simp add: calcWaterCourseLengthBlockage_def river_wgs_def weir_wgs_def river_def
      to_crs_def points_to_crs_def shift_provider_fields euclid_same_y_shift eval_defs)


text \<open>The river in \<^verbatim>\<open>EPSG:27700\<close>, held at reference 1 next to the chain.\<close>

theorem only_blocked_geometry_overwritten_witness:
  "calcWaterCourseLengthBlockage vertex_provider 2 [chain_gdf, river_gdf] 1 weir 0 (1 / 10)
     = Inr ((\<lparr>crs = ''EPSG:27700'',
              rows = [\<lparr>fid = 1, geometry = [(0, 0), (1, 0)]\<rparr>,
                      \<lparr>fid = 2, geometry = [(3, 0), (4, 0)]\<rparr>]\<rparr>, 2),
            [chain_gdf,
             \<lparr>crs = ''EPSG:27700'', rows = set_geometry river 1 [(0, 0), (1, 0)]\<rparr>])
   \<and> (1::nat) < length [chain_gdf, river_gdf]
   \<and> [chain_gdf, \<lparr>crs = ''EPSG:27700'', rows = set_geometry river 1 [(0, 0), (1, 0)]\<rparr>] ! 0
       = [chain_gdf, river_gdf] ! 0
   \<and> crs ([chain_gdf, river_gdf] ! 1) = ''EPSG:27700''
   \<and> list_all2 (rewritten vertex_provider (pts (reprojected_points vertex_provider weir))
          (rows ([chain_gdf, river_gdf] ! 1)) ({1, 2} - {2}))
        (rows ([chain_gdf, river_gdf] ! 1)) (set_geometry river 1 [(0, 0), (1, 0)])"
proof -
  let ?sel = "\<lparr>crs = ''EPSG:27700'',
              rows = [\<lparr>fid = 1::nat, geometry = [(0, 0), (1, 0)]\<rparr>,
                      \<lparr>fid = 2, geometry = [(3, 0), (4, 0)]\<rparr>]\<rparr>"
  let ?store' = "[chain_gdf,
             \<lparr>crs = ''EPSG:27700'', rows = set_geometry river 1 [(0, 0), (1, 0)]\<rparr>]"
  have a: "calcWaterCourseLengthBlockage vertex_provider 2 [chain_gdf, river_gdf] 1 weir 0 (1 / 10)
     = Inr ((?sel, 2), ?store')"
    by (simp add: calcWaterCourseLengthBlockage_def river_gdf_def weir_def river_def
        chain_gdf_def eval_defs)
  have b: "(1::nat) < length [chain_gdf, river_gdf]" by simp
  have c: "crs ([chain_gdf, river_gdf] ! 1) = ''EPSG:27700''" by (simp add: river_gdf_def)
  have d: "fid ` set (rows ?sel) = {1, 2}" by auto
  from only_blocked_geometry_overwritten[OF a b] b c show ?thesis
    unfolding d using a by simp
qed


section \<open>The starting feature\<close>



lemma fid_image_reprojected [simp]:
  fixes network :: "'f gdf"
  shows "fid ` set (rows (reprojected P network)) = fid ` set (rows network)"
  by (simp add: reprojected_def)





section \<open>Exploration stops at a blockage\<close>

text \<open>
  What holds of every pass and every run that completes.  In a pass of the \<^verbatim>\<open>for\<close>
  loop that completes, a candidate not yet found nor queued that is linked and blocked is
  appended to \<open>found_vertex\<close> and is not queued.  In every state the \<^verbatim>\<open>while\<close> loop
  reaches from the seed, the queue holds explorable features only and \<open>found_vertex\<close>
  holds selectable features only, and so do the rows a call returns as its selection.  An
  explorable feature other than the starting one is not blocked: a feature joined to the
  start only through a blocked candidate is never dequeued, and it is never selected.
\<close>

lemma exploration_stops_at_blockage:
  fixes network :: "'f feature list" and net :: "'f feature list" and store :: "'f gdf list"
  shows "(connect_blockage P bl d t c fs (possible, found, network)
            = Inr (possible', found', network')
          \<and> f \<in> set fs \<and> f \<notin> set found \<and> f \<notin> set possible
          \<and> linked P network d t c f \<and> blocked P bl network f
          \<longrightarrow> f \<in> set found' \<and> f \<notin> set possible')
       \<and> (iterates_blockage P bl d t n
            (map fid (select_fid net s), map fid (select_fid net s), net) (queue, visited, net')
          \<longrightarrow> (\<forall>g \<in> set queue. explorable P bl net d t s g)
            \<and> (\<forall>g \<in> set visited. selectable P bl net d t s g))
       \<and> (explorable P bl net d t s g \<longrightarrow> g = s \<or> \<not> blocked P bl net g)
       \<and> (calcWaterCourseLengthBlockage P s store k blockage d t = Inr ((selected, len), store')
          \<and> k < length store
          \<longrightarrow> (\<forall>r \<in> set (rows selected).
                 selectable P (pts (reprojected_points P blockage))
                   (rows (reprojected P (store ! k))) d t s (fid r)))"
proof -
  have 1: "f \<in> set found' \<and> f \<notin> set possible'"
    if h: "connect_blockage P bl d t c fs (possible, found, network)
            = Inr (possible', found', network')
          \<and> f \<in> set fs \<and> f \<notin> set found \<and> f \<notin> set possible
          \<and> linked P network d t c f \<and> blocked P bl network f"
  proof -
    from h have run: "connect_blockage P bl d t c fs (possible, found, network)
            = Inr (possible', found', network')" by simp
    from connect_blockage_appends[OF run] obtain new where
      n: "found' = found @ new"
         "set new = {f \<in> set fs. f \<notin> set found \<and> linked P network d t c f}"
         "possible' = possible @ filter (\<lambda>f. \<not> blocked P bl network f) new"
      by blast
    from h n(2) have "f \<in> set new" by simp
    with n(1) have "f \<in> set found'" by simp
    moreover from h n(3) have "f \<notin> set possible'" by simp
    ultimately show ?thesis by simp
  qed
  have 2: "(\<forall>g \<in> set queue. explorable P bl net d t s g)
      \<and> (\<forall>g \<in> set visited. selectable P bl net d t s g)"
    if it: "iterates_blockage P bl d t n
            (map fid (select_fid net s), map fid (select_fid net s), net) (queue, visited, net')"
    using iterates_blockage_frame[OF it refl] by simp
  have 3: "g = s \<or> \<not> blocked P bl net g" if e: "explorable P bl net d t s g"
    using explorable_untouched[OF e] seed_only_start[of net s] by blast
  have 4: "\<forall>r \<in> set (rows selected).
                 selectable P (pts (reprojected_points P blockage))
                   (rows (reprojected P (store ! k))) d t s (fid r)"
    if h: "calcWaterCourseLengthBlockage P s store k blockage d t = Inr ((selected, len), store')
          \<and> k < length store"
  proof -
    let ?net = "rows (reprojected P (store ! k))"
    let ?bl = "pts (reprojected_points P blockage)"
    let ?seed = "map fid (select_fid ?net s)"
    from h have r: "calcWaterCourseLengthBlockage P s store k blockage d t
        = Inr ((selected, len), store')" and k: "k < length store" by simp_all
    from calcWaterCourseLengthBlockage_returns[OF r k] obtain found written where
      tr: "trace_blockage P ?bl d t (?seed, ?seed, ?net) = Inr (found, written)"
      and sel: "selected = (reprojected P (store ! k))\<lparr>rows := isin written found\<rparr>"
      by blast
    from trace_blockage_result(2)[OF tr refl]
    have s: "\<forall>f \<in> set found. selectable P ?bl ?net d t s f" .
    show ?thesis
    proof
      fix r assume "r \<in> set (rows selected)"
      with sel have "fid r \<in> set found" by (simp add: isin_def)
      with s show "selectable P ?bl ?net d t s (fid r)" by blast
    qed
  qed
  from 1 2 3 4 show ?thesis by blast
qed

text \<open>
  Claim C2.  The claim is that every linked candidate with a blockage point in its buffer
  is added to \<open>found_vertex\<close>, and so is in the returned selection, but is never queued,
  so that nothing beyond it is explored or selected.  The code queues no such candidate
  and explores nothing beyond one, as the lemma above says, and it adds the candidate to
  \<open>found_vertex\<close> whenever it gets to line 148.  It does not get there when the vertex
  nearest to the blockage point is the second one.  On the river with the weir on the
  second vertex of feature 1, starting from feature 2: feature 1 is linked and blocked,
  \<^verbatim>\<open>LineString\<close> raises on line 145 before line 148 is reached, the pass and the
  call end with that error, and no selection is returned.  With the weir on the third
  vertex the call returns features 1, truncated, and 2, and not feature 0, which lies
  beyond feature 1.
\<close>

theorem blocked_candidate_not_visited:
  "linked vertex_provider river 0 (1 / 10) (3, 0) 1
   \<and> blocked vertex_provider (pts weir_on_second) river 1
   \<and> explore_blockage vertex_provider (pts weir_on_second) 0 (1 / 10) 2 ([], [2], river)
       = Inl ValueError
   \<and> calcWaterCourseLengthBlockage vertex_provider 2 [river_gdf] 0 weir_on_second 0 (1 / 10)
       = Inl ValueError
   \<and> calcWaterCourseLengthBlockage vertex_provider 2 [river_gdf] 0 weir 0 (1 / 10)
       = Inr ((\<lparr>crs = ''EPSG:27700'',
                rows = [\<lparr>fid = 1, geometry = [(0, 0), (1, 0)]\<rparr>,
                        \<lparr>fid = 2, geometry = [(3, 0), (4, 0)]\<rparr>]\<rparr>, 2),
              [\<lparr>crs = ''EPSG:27700'', rows = set_geometry river 1 [(0, 0), (1, 0)]\<rparr>])"
proof (intro conjI)
  show "linked vertex_provider river 0 (1 / 10) (3, 0) 1"
    by (simp add: linked_def eval_defs river_def)
  show "blocked vertex_provider (pts weir_on_second) river 1"
    by (simp add: blocked_def weir_on_second_def eval_defs river_def)
  show "explore_blockage vertex_provider (pts weir_on_second) 0 (1 / 10) 2 ([], [2], river)
       = Inl ValueError"
    by (simp add: weir_on_second_def eval_defs river_def)
  show "calcWaterCourseLengthBlockage vertex_provider 2 [river_gdf] 0 weir_on_second 0 (1 / 10)
       = Inl ValueError"
    by (simp add: calcWaterCourseLengthBlockage_def river_gdf_def weir_on_second_def
        eval_defs river_def)
  show "calcWaterCourseLengthBlockage vertex_provider 2 [river_gdf] 0 weir 0 (1 / 10)
       = Inr ((\<lparr>crs = ''EPSG:27700'',
                rows = [\<lparr>fid = 1, geometry = [(0, 0), (1, 0)]\<rparr>,
                        \<lparr>fid = 2, geometry = [(3, 0), (4, 0)]\<rparr>]\<rparr>, 2),
              [\<lparr>crs = ''EPSG:27700'', rows = set_geometry river 1 [(0, 0), (1, 0)]\<rparr>])"
    by (simp add: calcWaterCourseLengthBlockage_def river_gdf_def weir_def eval_defs river_def)
qed

end
